theory Spec2Isabelle
  imports Main "HOL-Library.AList" "HOL-Library.Sublist" "HOL-Library.List_Lexorder"
begin

section \<open>Python values used by parse\_docx\_to\_json.py\<close>

text \<open>
  A Python \<open>str\<close> is a sequence of Unicode code points, so it is modelled as a list of
  code points (the integers that \<open>ord\<close> returns); \<open>str\<close> embeds an ASCII literal. Lists of code points are ordered
  lexicographically (HOL-Library.List\_Lexorder), which is the order Python's \<open>sorted\<close>
  uses on strings. The bytes of a container entry are a \<open>string\<close> (8-bit characters).
\<close>

type_synonym pystr = "int list"

type_synonym bytes = "string"

definition str :: "string \<Rightarrow> pystr" where
  "str s = map of_char s"

text \<open>The exceptions that the modelled functions raise or catch.\<close>

datatype error =
    KeyError pystr
  | TableIndexError pystr nat int
  | ListIndexError
  | OverflowError
  | MemoryError
  | ValueError
  | JSONDecodeError

text \<open>\<open>s.startswith(t)\<close>, and \<open>t in s\<close> for strings.\<close>

definition startswith :: "pystr \<Rightarrow> pystr \<Rightarrow> bool" where
  "startswith s t = prefix t s"

fun contains :: "pystr \<Rightarrow> pystr \<Rightarrow> bool" where
  "contains t [] = (t = [])"
| "contains t (c # cs) = (prefix t (c # cs) \<or> contains t cs)"

text \<open>
  \<open>str.strip()\<close> without argument removes leading and trailing white space, which for a
  Python \<open>str\<close> is the set of code points below.
\<close>

definition isspace :: "int \<Rightarrow> bool" where
  "isspace c \<longleftrightarrow>
     (9 \<le> c \<and> c \<le> 13) \<or> (28 \<le> c \<and> c \<le> 32) \<or> c = 133 \<or> c = 160 \<or> c = 5760 \<or>
     (8192 \<le> c \<and> c \<le> 8202) \<or> c = 8232 \<or> c = 8233 \<or> c = 8239 \<or> c = 8287 \<or> c = 12288"

definition strip :: "pystr \<Rightarrow> pystr" where
  "strip s = rev (dropWhile isspace (rev (dropWhile isspace s)))"

text \<open>\<open>sep.join(xs)\<close>.\<close>

fun join :: "pystr \<Rightarrow> pystr list \<Rightarrow> pystr" where
  "join sep [] = []"
| "join sep [x] = x"
| "join sep (x # y # ys) = x @ sep @ join sep (y # ys)"

text \<open>
  The format specification \<open>02d\<close> applied to a non-negative integer: its decimal digits,
  padded on the left with zeros to a width of at least two. The counter it is applied to
  starts at 1 and is only ever incremented, so it is a natural number.
\<close>

fun decimal :: "nat \<Rightarrow> pystr" where
  "decimal n = (if n < 10 then [48 + int n] else decimal (n div 10) @ [48 + int (n mod 10)])"

declare decimal.simps [simp del]

definition format_02d :: "nat \<Rightarrow> pystr" where
  "format_02d n = (let d = decimal n in replicate (2 - length d) 48 @ d)"

text \<open>
  \<open>os.path.splitext\<close> on a POSIX path: the extension starts at the last dot of the last
  path component, provided some character of that component before this dot is not a dot.
  \<open>rfind\<close> is \<open>str.rfind\<close> for a single character, \<open>-1\<close> when it does not occur.
\<close>

definition rfind :: "pystr \<Rightarrow> int \<Rightarrow> int" where
  "rfind p c =
     (if c \<in> set p then int (length p) - 1 - int (length (takeWhile (\<lambda>x. x \<noteq> c) (rev p)))
      else - 1)"

definition splitext :: "pystr \<Rightarrow> pystr \<times> pystr" where
  "splitext p =
     (let sepIndex = rfind p 47;
          dotIndex = rfind p 46
      in if dotIndex > sepIndex \<and>
            list_ex (\<lambda>i. p ! i \<noteq> 46) [nat (sepIndex + 1) ..< nat dotIndex]
         then (take (nat dotIndex) p, drop (nat dotIndex) p)
         else (p, []))"

section \<open>The document\<close>

text \<open>
  What the program reads of a .docx file through python-docx and zipfile: the relationships
  of the main document part (the values of the dictionary \<open>doc.part.rels\<close>, in its
  order), the entries of the zip container (\<open>z.open(name)\<close> raises \<open>KeyError\<close> for a
  name that is not there), and the tables of the document body.

  A relationship is external (a link to a resource outside the container, \<open>target_ref\<close>
  being the target as written) or internal. For an internal relationship
  \<open>target_partname\<close> is the name of the part that python-docx resolves the target to,
  such as \<open>/word/media/image1.png\<close>, and \<open>target_ref\<close> is the path that python-docx
  reports for that part relative to the document part.

  A run carries the drawings that \<open>findall(".//w:drawing")\<close> returns and its text; a
  drawing carries the \<open>r:embed\<close> attribute of each of its \<open>a:blip\<close> descendants, in
  document order (\<open>None\<close> for a blip without the attribute).
\<close>

record rel =
  rId :: pystr
  reltype :: pystr
  is_external :: bool
  target_partname :: pystr
  target_ref :: pystr

record drawing =
  blips :: "pystr option list"

record run =
  drawings :: "drawing list"
  run_text :: pystr

text \<open>
  \<open>ilvl_val\<close> is the outcome of evaluating \<open>int(ilvl.val)\<close>: python-docx parses the
  attribute when it is read and raises when it is absent or not an integer.
\<close>

record CT_DecimalNumber =
  ilvl_val :: "error + int"

record CT_NumPr =
  ilvl :: "CT_DecimalNumber option"

record CT_PPr =
  numPr :: "CT_NumPr option"

record docx_paragraph =
  pPr :: "CT_PPr option"
  runs :: "run list"

record cell =
  paragraphs :: "docx_paragraph list"

record row =
  cells :: "cell list"

record table =
  rows :: "row list"

record docx =
  rels :: "rel list"
  zip_entries :: "pystr \<rightharpoonup> bytes"
  tables :: "table list"

definition zip_open :: "docx \<Rightarrow> pystr \<Rightarrow> error + bytes" where
  "zip_open d name = (case zip_entries d name of None \<Rightarrow> Inl (KeyError name) | Some b \<Rightarrow> Inr b)"

text \<open>
  \<open>Document(docx_path)\<close>: when python-docx loads the package it reads the part of every
  internal relationship from the container, under the part name without its leading slash,
  and a part that is not there makes the load raise \<open>KeyError\<close>. Of the package, the
  relationships of the main document part are modelled; the rest is taken to load.
\<close>

definition membername :: "pystr \<Rightarrow> pystr" where
  "membername partname = drop 1 partname"

definition Document :: "docx \<Rightarrow> error + docx" where
  "Document d =
     (case List.find (\<lambda>r. \<not> is_external r \<and> zip_entries d (membername (target_partname r)) = None)
             (rels d) of
        None \<Rightarrow> Inr d
      | Some r \<Rightarrow> Inl (KeyError (membername (target_partname r))))"

section \<open>extract\_images\_from\_docx\<close>

text \<open>
  The dictionary \<open>relid_to_target\<close> is an association list in insertion order; assigning
  to a key that is present keeps its position (\<open>AList.update\<close>).
\<close>

definition relid_to_target :: "rel list \<Rightarrow> (pystr \<times> pystr) list" where
  "relid_to_target rs =
     fold (\<lambda>r acc. if contains (str ''image'') (reltype r)
                    then AList.update (rId r) (target_ref r) acc else acc) rs []"

definition zip_path_of :: "pystr \<Rightarrow> pystr" where
  "zip_path_of tref =
     (let t = (if startswith tref (str ''/'') then drop 1 tref else tref)
      in if \<not> startswith t (str ''word/'') then str ''word/'' @ t else t)"

definition final_name_of :: "pystr \<Rightarrow> nat \<Rightarrow> pystr \<Rightarrow> pystr" where
  "final_name_of doc_basename n zip_path =
     (let orig_ext = snd (splitext zip_path);
          orig_ext = (if orig_ext = [] then str ''.bin'' else orig_ext)
      in doc_basename @ str ''_Image'' @ format_02d n @ orig_ext)"

text \<open>
  The local variables of the loop, together with its effects: \<open>opened\<close> lists the
  container paths on which \<open>z.open\<close> was called, \<open>written\<close> the files copied into the
  output folder (file name and content), both in order.
\<close>

record extract_state =
  image_map :: "pystr \<rightharpoonup> pystr"
  target_to_final :: "pystr \<rightharpoonup> pystr option"
  all_final_names :: "pystr set"
  counter :: nat
  opened :: "pystr list"
  written :: "(pystr \<times> bytes) list"

definition extract_init :: extract_state where
  "extract_init =
     \<lparr>image_map = Map.empty, target_to_final = Map.empty, all_final_names = {},
      counter = 1, opened = [], written = []\<rparr>"

text \<open>The last statement of the loop body: \<open>if final_name is not None: ...\<close>.\<close>

definition record_name :: "pystr \<Rightarrow> pystr option \<Rightarrow> extract_state \<Rightarrow> extract_state" where
  "record_name rid final_name s =
     (case final_name of
        None \<Rightarrow> s
      | Some f \<Rightarrow> s\<lparr>image_map := (image_map s)(rid \<mapsto> f),
                    all_final_names := insert f (all_final_names s)\<rparr>)"

definition extract_step :: "docx \<Rightarrow> pystr \<Rightarrow> pystr \<times> pystr \<Rightarrow> extract_state \<Rightarrow> extract_state" where
  "extract_step d doc_basename item s =
     (let rid = fst item;
          zip_path = zip_path_of (snd item)
      in case target_to_final s zip_path of
           Some final_name \<Rightarrow> record_name rid final_name s
         | None \<Rightarrow>
             (let final_name = final_name_of doc_basename (counter s) zip_path;
                  s1 = s\<lparr>counter := counter s + 1, opened := opened s @ [zip_path]\<rparr>
              in case zip_open d zip_path of
                   Inr content \<Rightarrow>
                     record_name rid (Some final_name)
                       (s1\<lparr>written := written s1 @ [(final_name, content)],
                           target_to_final := (target_to_final s1)(zip_path \<mapsto> Some final_name)\<rparr>)
                 | Inl e \<Rightarrow>
                     record_name rid None
                       (s1\<lparr>target_to_final := (target_to_final s1)(zip_path \<mapsto> None)\<rparr>)))"

definition extract_loop :: "docx \<Rightarrow> pystr \<Rightarrow> (pystr \<times> pystr) list \<Rightarrow> extract_state" where
  "extract_loop d doc_basename items = fold (extract_step d doc_basename) items extract_init"

definition extract_run :: "docx \<Rightarrow> pystr \<Rightarrow> extract_state" where
  "extract_run d doc_basename = extract_loop d doc_basename (relid_to_target (rels d))"

text \<open>
  The function opens the document first, which may raise, and then runs the loop over the
  image relationships of the opened document on the same container.
\<close>

definition extract_images_from_docx ::
  "docx \<Rightarrow> pystr \<Rightarrow> error + ((pystr \<rightharpoonup> pystr) \<times> pystr list)" where
  "extract_images_from_docx d doc_basename =
     (case Document d of
        Inl e \<Rightarrow> Inl e
      | Inr doc \<Rightarrow>
          (let s = extract_run doc doc_basename
           in Inr (image_map s, sorted_list_of_set (all_final_names s))))"

section \<open>Rendering paragraphs and cells\<close>

definition is_list_paragraph :: "docx_paragraph \<Rightarrow> bool" where
  "is_list_paragraph p = (case pPr p of None \<Rightarrow> False | Some pp \<Rightarrow> numPr pp \<noteq> None)"

definition get_list_level :: "docx_paragraph \<Rightarrow> int" where
  "get_list_level p =
     (case pPr p of
        None \<Rightarrow> 0
      | Some pp \<Rightarrow>
          (case numPr pp of
             None \<Rightarrow> 0
           | Some np \<Rightarrow>
               (case ilvl np of
                  None \<Rightarrow> 0
                | Some lv \<Rightarrow> (case ilvl_val lv of Inr n \<Rightarrow> n | Inl e \<Rightarrow> 0))))"

text \<open>
  The body of the loop over the drawings of a run: \<open>drawing.find(".//a:blip")\<close> is the
  first blip, \<open>rid in image_map\<close> is false for a missing attribute.
\<close>

definition drawing_step :: "(pystr \<rightharpoonup> pystr) \<Rightarrow> drawing \<Rightarrow> pystr list \<Rightarrow> pystr list" where
  "drawing_step imap dr runs_output =
     (case blips dr of
        [] \<Rightarrow> runs_output
      | rid # _ \<Rightarrow>
          (case rid of
             None \<Rightarrow> runs_output
           | Some r \<Rightarrow>
               (case imap r of
                  None \<Rightarrow> runs_output
                | Some image_filename \<Rightarrow>
                    runs_output @ [str ''[[image:'' @ image_filename @ str '']]''])))"

definition run_step :: "(pystr \<rightharpoonup> pystr) \<Rightarrow> run \<Rightarrow> pystr list \<Rightarrow> pystr list" where
  "run_step imap r runs_output =
     (if drawings r \<noteq> [] then fold (drawing_step imap) (drawings r) runs_output
      else if run_text r \<noteq> [] then runs_output @ [run_text r]
      else runs_output)"

definition extract_paragraph_with_images :: "docx_paragraph \<Rightarrow> (pystr \<rightharpoonup> pystr) \<Rightarrow> pystr" where
  "extract_paragraph_with_images p imap = strip (concat (fold (run_step imap) (runs p) []))"

text \<open>
  \<open>"\t" * level\<close>: the count must fit the index type of the interpreter, else the
  multiplication raises \<open>OverflowError\<close> (\<open>sys_maxsize\<close> is \<open>sys.maxsize\<close> of a 64-bit
  CPython); a count that is not positive gives the empty string; a string longer than the
  interpreter can allocate raises \<open>MemoryError\<close>. The length \<open>mem\<close> of the longest
  string that can be allocated depends on the machine and is a parameter; running out of
  memory in the other string operations is not modelled.
\<close>

definition sys_maxsize :: int where
  "sys_maxsize = 9223372036854775807"

definition repeat_tab :: "nat \<Rightarrow> int \<Rightarrow> error + pystr" where
  "repeat_tab mem level =
     (if level < - sys_maxsize - 1 \<or> sys_maxsize < level then Inl OverflowError
      else if int mem < level then Inl MemoryError
      else Inr (replicate (nat level) 9))"

text \<open>The body of the loop over the paragraphs of a cell; the bullet is U+2022.\<close>

definition cell_text_step ::
  "nat \<Rightarrow> (pystr \<rightharpoonup> pystr) \<Rightarrow> docx_paragraph \<Rightarrow> pystr list \<Rightarrow> error + pystr list" where
  "cell_text_step mem imap p lines =
     (let content = extract_paragraph_with_images p imap
      in if content = [] then Inr lines
         else if is_list_paragraph p then
           (let level = get_list_level p
            in case repeat_tab mem level of
                 Inl e \<Rightarrow> Inl e
               | Inr indent \<Rightarrow> Inr (lines @ [indent @ [8226, 32] @ content]))
         else Inr (lines @ [content]))"

fun cell_text_loop ::
  "nat \<Rightarrow> (pystr \<rightharpoonup> pystr) \<Rightarrow> docx_paragraph list \<Rightarrow> pystr list \<Rightarrow> error + pystr list" where
  "cell_text_loop mem imap [] lines = Inr lines"
| "cell_text_loop mem imap (p # ps) lines =
     (case cell_text_step mem imap p lines of
        Inl e \<Rightarrow> Inl e
      | Inr lines' \<Rightarrow> cell_text_loop mem imap ps lines')"

definition extract_cell_text_preserve_lists_and_images ::
  "nat \<Rightarrow> cell \<Rightarrow> (pystr \<rightharpoonup> pystr) \<Rightarrow> error + pystr" where
  "extract_cell_text_preserve_lists_and_images mem c imap =
     (case cell_text_loop mem imap (paragraphs c) [] of
        Inl e \<Rightarrow> Inl e
      | Inr lines \<Rightarrow> Inr (join [10] lines))"

definition cell_title_step :: "(pystr \<rightharpoonup> pystr) \<Rightarrow> docx_paragraph \<Rightarrow> pystr list \<Rightarrow> pystr list" where
  "cell_title_step imap p parts =
     (let content = extract_paragraph_with_images p imap
      in if content \<noteq> [] then parts @ [content] else parts)"

definition extract_cell_title_with_images :: "cell \<Rightarrow> (pystr \<rightharpoonup> pystr) \<Rightarrow> pystr" where
  "extract_cell_title_with_images c imap =
     strip (join [32] (fold (cell_title_step imap) (paragraphs c) []))"

section \<open>parse\_docx\_table\_with\_images\<close>

record flashcard =
  title :: pystr
  detail :: pystr

text \<open>\<open>xs[i]\<close> for a Python list: a negative index counts from the end.\<close>

definition py_index :: "'a list \<Rightarrow> int \<Rightarrow> error + 'a" where
  "py_index xs i =
     (if 0 \<le> i \<and> i < int (length xs) then Inr (xs ! nat i)
      else if i < 0 \<and> - int (length xs) \<le> i then Inr (xs ! nat (int (length xs) + i))
      else Inl ListIndexError)"

definition row_step ::
  "nat \<Rightarrow> (pystr \<rightharpoonup> pystr) \<Rightarrow> row \<Rightarrow> flashcard list \<Rightarrow> error + flashcard list" where
  "row_step mem imap r cards =
     (if length (cells r) < 2 then Inr cards
      else
        (let t = extract_cell_title_with_images (cells r ! 0) imap
         in case extract_cell_text_preserve_lists_and_images mem (cells r ! 1) imap of
              Inl e \<Rightarrow> Inl e
            | Inr dt \<Rightarrow>
                if t = [] \<and> dt = [] then Inr cards
                else Inr (cards @ [\<lparr>title = t, detail = dt\<rparr>])))"

fun rows_loop ::
  "nat \<Rightarrow> (pystr \<rightharpoonup> pystr) \<Rightarrow> row list \<Rightarrow> flashcard list \<Rightarrow> error + flashcard list" where
  "rows_loop mem imap [] cards = Inr cards"
| "rows_loop mem imap (r # rs) cards =
     (case row_step mem imap r cards of
        Inl e \<Rightarrow> Inl e
      | Inr cards' \<Rightarrow> rows_loop mem imap rs cards')"

text \<open>
  The function returns the cards and the image files, or raises. The files it writes are
  those of \<open>extract_images_from_docx\<close>, which runs before the document is opened a second
  time and the table is looked up.
\<close>

definition parse_docx_table_with_images ::
  "nat \<Rightarrow> pystr \<Rightarrow> docx \<Rightarrow> pystr \<Rightarrow> int \<Rightarrow> bool \<Rightarrow>
   error + (flashcard list \<times> pystr list)" where
  "parse_docx_table_with_images mem path d doc_basename table_index has_header =
     (case extract_images_from_docx d doc_basename of
        Inl e \<Rightarrow> Inl e
      | Inr (imap, image_files) \<Rightarrow>
          (case Document d of
             Inl e \<Rightarrow> Inl e
           | Inr doc \<Rightarrow>
               if table_index \<ge> int (length (tables doc))
               then Inl (TableIndexError path (length (tables doc)) table_index)
               else
                 (case py_index (tables doc) table_index of
                    Inl e \<Rightarrow> Inl e
                  | Inr tbl \<Rightarrow>
                      (let start_row = (if has_header then 1 else 0)
                       in case rows_loop mem imap (drop start_row (rows tbl)) [] of
                            Inl e \<Rightarrow> Inl e
                          | Inr cards \<Rightarrow> Inr (cards, image_files)))))"

section \<open>The manifest\<close>

text \<open>
  A manifest entry is a dictionary from field names to strings (every field this program
  writes is a string), in insertion order; the index is a dictionary from file names to
  entries. Of a decoded manifest the members \<open>generated_at\<close> and \<open>files\<close> are
  modelled; \<open>files = None\<close> stands for a manifest without the member \<open>files\<close>.
  Reading the file system, \<open>json.load\<close> and the clock are parameters.
\<close>

type_synonym entry = "(pystr \<times> pystr) list"

type_synonym manifest_index = "(pystr \<times> entry) list"

record manifest_data =
  generated_at :: "pystr option"
  files :: "entry list option"

definition dict_get :: "('k \<times> 'v) list \<Rightarrow> 'k \<Rightarrow> 'v \<Rightarrow> 'v" where
  "dict_get d k dflt = (case map_of d k of None \<Rightarrow> dflt | Some v \<Rightarrow> v)"

definition index_step :: "entry \<Rightarrow> manifest_index \<Rightarrow> manifest_index" where
  "index_step e idx =
     (case map_of e (str ''path'') of
        None \<Rightarrow> idx
      | Some path \<Rightarrow> if path \<noteq> [] then AList.update path e idx else idx)"

definition load_manifest ::
  "(pystr \<rightharpoonup> bytes) \<Rightarrow> (bytes \<Rightarrow> error + manifest_data) \<Rightarrow> pystr \<Rightarrow>
   error + (manifest_data \<times> manifest_index)" where
  "load_manifest fs json_load manifest_path =
     (case fs manifest_path of
        None \<Rightarrow> Inr (\<lparr>generated_at = None, files = Some []\<rparr>, [])
      | Some content \<Rightarrow>
          (case json_load content of
             Inl e \<Rightarrow> Inl e
           | Inr data \<Rightarrow>
               Inr (data, fold index_step (case files data of None \<Rightarrow> [] | Some es \<Rightarrow> es) [])))"

text \<open>\<open>save_manifest\<close> returns the manifest that \<open>json.dump\<close> writes to the file.\<close>

definition save_manifest :: "pystr \<Rightarrow> manifest_data \<Rightarrow> manifest_index \<Rightarrow> manifest_data" where
  "save_manifest now data idx =
     data\<lparr>generated_at := Some now,
          files := Some (sort_key (\<lambda>e. dict_get e (str ''path'') []) (map snd idx))\<rparr>"

text \<open>
  The update of the index for one output file in \<open>main\<close>: fetch the entry or start a new
  one, assign three fields, store it.
\<close>

definition upsert :: "pystr \<Rightarrow> pystr \<Rightarrow> pystr \<Rightarrow> pystr \<Rightarrow> manifest_index \<Rightarrow> manifest_index" where
  "upsert name ty source_docx parsed_at idx =
     (let e = dict_get idx name [(str ''path'', name)];
          e = AList.update (str ''type'') ty e;
          e = AList.update (str ''source_docx'') source_docx e;
          e = AList.update (str ''parsed_at'') parsed_at e
      in AList.update name e idx)"

definition update_manifest :: "pystr \<Rightarrow> pystr \<Rightarrow> pystr \<Rightarrow> pystr list \<Rightarrow> manifest_index \<Rightarrow> manifest_index" where
  "update_manifest filename output_json_name parsed_at image_files idx =
     fold (\<lambda>img_name. upsert img_name (str ''image'') filename parsed_at) image_files
       (upsert output_json_name (str ''json'') filename parsed_at idx)"

text \<open>
  One iteration of the loop of \<open>main\<close> over the .docx files: a document whose parsing
  raises is skipped. A job is the file name, the document read from it and the clock
  reading taken after parsing.
\<close>

record job =
  filename :: pystr
  document :: docx
  parsed_at :: pystr

definition path_join :: "pystr \<Rightarrow> pystr \<Rightarrow> pystr" where
  "path_join a b =
     (if startswith b (str ''/'') then b
      else if a = [] \<or> last a = 47 then a @ b
      else a @ str ''/'' @ b)"

definition main_step ::
  "nat \<Rightarrow> pystr \<Rightarrow> int \<Rightarrow> bool \<Rightarrow> job \<Rightarrow> manifest_index \<Rightarrow> manifest_index" where
  "main_step mem current_dir table_index no_header j idx =
     (let input_path = path_join current_dir (filename j);
          base = fst (splitext (filename j));
          output_json_name = base @ str ''.json''
      in case parse_docx_table_with_images mem input_path (document j) base table_index
                (\<not> no_header) of
           Inl e \<Rightarrow> idx
         | Inr (cards, image_files) \<Rightarrow>
             update_manifest (filename j) output_json_name (parsed_at j) image_files idx)"

definition main_loop ::
  "nat \<Rightarrow> pystr \<Rightarrow> int \<Rightarrow> bool \<Rightarrow> job list \<Rightarrow> manifest_index \<Rightarrow> manifest_index" where
  "main_loop mem current_dir table_index no_header jobs idx =
     fold (main_step mem current_dir table_index no_header) jobs idx"

text \<open>
  \<open>main\<close> after the parsing of its arguments: the manifest is loaded outside of any
  \<open>try\<close>, so an error of \<open>load_manifest\<close> ends the batch; without .docx files the
  function returns before saving; otherwise it returns the manifest that it saves. The jobs
  stand for the sorted .docx files of the input directory.
\<close>

definition main ::
  "nat \<Rightarrow> (pystr \<rightharpoonup> bytes) \<Rightarrow> (bytes \<Rightarrow> error + manifest_data) \<Rightarrow> pystr \<Rightarrow> pystr \<Rightarrow> int \<Rightarrow>
   bool \<Rightarrow> job list \<Rightarrow> pystr \<Rightarrow> error + manifest_data option" where
  "main mem fs json_load current_dir output_dir table_index no_header jobs now =
     (let manifest_path = path_join output_dir (str ''manifest.json'')
      in case load_manifest fs json_load manifest_path of
           Inl e \<Rightarrow> Inl e
         | Inr (manifest_data, idx) \<Rightarrow>
             if jobs = [] then Inr None
             else Inr (Some (save_manifest now manifest_data
                               (main_loop mem current_dir table_index no_header jobs idx))))"

section \<open>Notions used to state the properties\<close>

text \<open>
  The distinct elements of a list in the order of their first occurrence, and the position
  of the first occurrence of an element.
\<close>

definition first_seen :: "'a list \<Rightarrow> 'a list" where
  "first_seen xs = rev (remdups (rev xs))"

definition index_of :: "'a \<Rightarrow> 'a list \<Rightarrow> nat" where
  "index_of x xs = length (takeWhile (\<lambda>y. y \<noteq> x) xs)"

text \<open>The normalized container paths of the image relationships, in traversal order.\<close>

definition zip_paths :: "(pystr \<times> pystr) list \<Rightarrow> pystr list" where
  "zip_paths items = map (\<lambda>it. zip_path_of (snd it)) items"

text \<open>
  The file name that a container path resolves to, given the distinct paths in first-seen
  order: none when the container has no such entry, else the name numbered with the
  1-based position of the path.
\<close>

definition resolved_name :: "docx \<Rightarrow> pystr \<Rightarrow> pystr list \<Rightarrow> pystr \<Rightarrow> pystr option" where
  "resolved_name d doc_basename ds zp =
     (case zip_entries d zp of
        None \<Rightarrow> None
      | Some b \<Rightarrow> Some (final_name_of doc_basename (index_of zp ds + 1) zp))"

text \<open>The number that a string of decimal digits denotes.\<close>

definition decimal_value :: "pystr \<Rightarrow> nat" where
  "decimal_value s = foldl (\<lambda>a c. 10 * a + nat (c - 48)) 0 s"

text \<open>
  The files copied for the distinct container paths \<open>ds\<close>, in order: one for each path
  that the container has, named by the 1-based position of the path.
\<close>

definition copied_files :: "docx \<Rightarrow> pystr \<Rightarrow> pystr list \<Rightarrow> (pystr \<times> bytes) list" where
  "copied_files d doc_basename ds =
     List.map_filter
       (\<lambda>zp. case zip_entries d zp of
                None \<Rightarrow> None
              | Some c \<Rightarrow> Some (final_name_of doc_basename (index_of zp ds + 1) zp, c)) ds"

text \<open>The relationship identifier that a drawing resolves to: the attribute of its first blip.\<close>

definition drawing_rid :: "drawing \<Rightarrow> pystr option" where
  "drawing_rid dr = (case blips dr of [] \<Rightarrow> None | b # _ \<Rightarrow> b)"

text \<open>
  The placeholder token of an image file, and the files that the drawings of a run resolve
  to: those of the drawings whose relationship identifier is in the image map, in order.
\<close>

definition placeholder :: "pystr \<Rightarrow> pystr" where
  "placeholder f = str ''[[image:'' @ f @ str '']]''"

definition resolved_images :: "(pystr \<rightharpoonup> pystr) \<Rightarrow> drawing list \<Rightarrow> pystr list" where
  "resolved_images imap drs =
     List.map_filter (\<lambda>dr. case drawing_rid dr of None \<Rightarrow> None | Some x \<Rightarrow> imap x) drs"

text \<open>
  The documents that python-docx can open: the part of every internal relationship is in the
  container.
\<close>

definition loads :: "docx \<Rightarrow> bool" where
  "loads d \<longleftrightarrow>
     list_all (\<lambda>r. is_external r \<or> zip_entries d (membername (target_partname r)) \<noteq> None) (rels d)"

text \<open>
  The line of a paragraph in the list-preserving rendering of a cell, and that rendering:
  the lines of the paragraphs whose rendering is not empty, joined by newlines. A negative
  level gives no tabs.
\<close>

definition cell_line :: "(pystr \<rightharpoonup> pystr) \<Rightarrow> docx_paragraph \<Rightarrow> pystr" where
  "cell_line imap p =
     (if is_list_paragraph p
      then replicate (nat (max 0 (get_list_level p))) 9 @ [8226, 32] @
           extract_paragraph_with_images p imap
      else extract_paragraph_with_images p imap)"

definition cell_text_of :: "(pystr \<rightharpoonup> pystr) \<Rightarrow> cell \<Rightarrow> pystr" where
  "cell_text_of imap c =
     join [10] (map (cell_line imap)
       (filter (\<lambda>p. extract_paragraph_with_images p imap \<noteq> []) (paragraphs c)))"

text \<open>
  The cells whose list-preserving rendering does not raise: every list paragraph with a
  rendering that is not empty has a level that fits the index type and that many tabs can be
  allocated. The tables all of whose rows from the start row on render, where they have a
  second cell.
\<close>

definition level_fits :: "nat \<Rightarrow> int \<Rightarrow> bool" where
  "level_fits mem level \<longleftrightarrow> - sys_maxsize - 1 \<le> level \<and> level \<le> sys_maxsize \<and> level \<le> int mem"

definition cell_renders :: "nat \<Rightarrow> (pystr \<rightharpoonup> pystr) \<Rightarrow> cell \<Rightarrow> bool" where
  "cell_renders mem imap c \<longleftrightarrow>
     list_all (\<lambda>p. extract_paragraph_with_images p imap = [] \<or> \<not> is_list_paragraph p \<or>
                   level_fits mem (get_list_level p)) (paragraphs c)"

definition table_renders :: "nat \<Rightarrow> (pystr \<rightharpoonup> pystr) \<Rightarrow> bool \<Rightarrow> table \<Rightarrow> bool" where
  "table_renders mem imap has_header tbl \<longleftrightarrow>
     list_all (\<lambda>r. length (cells r) < 2 \<or> cell_renders mem imap (cells r ! 1))
       (drop (if has_header then 1 else 0) (rows tbl))"

text \<open>
  The updates of the index that one iteration of the loop of \<open>main\<close> performs, as a list
  of (file name, type, source document, time): none for a document whose parsing raises, else
  one for the JSON file and one for each image file. \<open>apply_op\<close> performs one of them.
\<close>

definition job_ops ::
  "nat \<Rightarrow> pystr \<Rightarrow> int \<Rightarrow> bool \<Rightarrow> job \<Rightarrow> (pystr \<times> pystr \<times> pystr \<times> pystr) list" where
  "job_ops mem current_dir table_index no_header j =
     (case parse_docx_table_with_images mem (path_join current_dir (filename j)) (document j)
             (fst (splitext (filename j))) table_index (\<not> no_header) of
        Inl e \<Rightarrow> []
      | Inr (cards, image_files) \<Rightarrow>
          (fst (splitext (filename j)) @ str ''.json'', str ''json'', filename j, parsed_at j) #
          map (\<lambda>img_name. (img_name, str ''image'', filename j, parsed_at j)) image_files)"

definition apply_op :: "pystr \<times> pystr \<times> pystr \<times> pystr \<Rightarrow> manifest_index \<Rightarrow> manifest_index" where
  "apply_op op idx = (case op of (name, ty, src, t) \<Rightarrow> upsert name ty src t idx)"

text \<open>
  The key by which \<open>save_manifest\<close> sorts an entry, and the indexes in which every
  entry is stored under its own \<open>path\<close> and no key occurs twice.
\<close>

definition entry_path :: "entry \<Rightarrow> pystr" where
  "entry_path e = dict_get e (str ''path'') []"

definition index_wf :: "manifest_index \<Rightarrow> bool" where
  "index_wf idx \<longleftrightarrow>
     distinct (map fst idx) \<and> list_all (\<lambda>(k, e). map_of e (str ''path'') = Some k) idx"

section \<open>Example inputs\<close>

text \<open>
  A document with two relationships to the same image (\<open>rId1\<close>, \<open>rId3\<close>), a
  relationship that is not an image (\<open>rId2\<close>), an external one to a linked image, which
  is not in the container (\<open>rId4\<close>), and one whose target has no extension (\<open>rId5\<close>).
\<close>

definition example_doc :: docx where
  "example_doc =
     \<lparr>rels =
        [\<lparr>rId = str ''rId1'', reltype = str ''http://example.org/relationships/image'',
          is_external = False, target_partname = str ''/word/media/image1.png'',
          target_ref = str ''media/image1.png''\<rparr>,
         \<lparr>rId = str ''rId2'', reltype = str ''http://example.org/relationships/styles'',
          is_external = False, target_partname = str ''/word/styles.xml'',
          target_ref = str ''styles.xml''\<rparr>,
         \<lparr>rId = str ''rId3'', reltype = str ''http://example.org/relationships/image'',
          is_external = False, target_partname = str ''/word/media/image1.png'',
          target_ref = str ''media/image1.png''\<rparr>,
         \<lparr>rId = str ''rId4'', reltype = str ''http://example.org/relationships/image'',
          is_external = True, target_partname = [],
          target_ref = str ''https://example.org/gone.jpeg''\<rparr>,
         \<lparr>rId = str ''rId5'', reltype = str ''http://example.org/relationships/image'',
          is_external = False, target_partname = str ''/word/media/noext'',
          target_ref = str ''media/noext''\<rparr>],
      zip_entries =
        [str ''word/media/image1.png'' \<mapsto> ''PNG'', str ''word/styles.xml'' \<mapsto> ''<styles/>'',
         str ''word/media/noext'' \<mapsto> ''RAW''],
      tables = []\<rparr>"

text \<open>The state after the first iteration on the missing target of \<open>rId4\<close>.\<close>

definition after_gone :: extract_state where
  "after_gone =
     extract_step example_doc (str ''doc'')
       (str ''rId4'', str ''https://example.org/gone.jpeg'') extract_init"

text \<open>
  A document whose only relationship is an internal one to an image part that is not in the
  container, and that has one empty table.
\<close>

definition dangling_doc :: docx where
  "dangling_doc =
     \<lparr>rels =
        [\<lparr>rId = str ''rId1'', reltype = str ''http://example.org/relationships/image'',
          is_external = False, target_partname = str ''/word/media/gone.png'',
          target_ref = str ''media/gone.png''\<rparr>],
      zip_entries = Map.empty,
      tables = [\<lparr>rows = []\<rparr>]\<rparr>"

text \<open>A document with a hundred images, \<open>rId1\<close> to \<open>rId100\<close>, all in the container.\<close>

definition hundred_images :: docx where
  "hundred_images =
     \<lparr>rels = map (\<lambda>i. \<lparr>rId = str ''rId'' @ decimal i,
                        reltype = str ''http://example.org/relationships/image'',
                        is_external = False,
                        target_partname = str ''/word/media/image'' @ decimal i @ str ''.png'',
                        target_ref = str ''media/image'' @ decimal i @ str ''.png''\<rparr>) [1 ..< 101],
      zip_entries = map_of (map (\<lambda>i. (str ''word/media/image'' @ decimal i @ str ''.png'', ''PNG''))
                              [1 ..< 101]),
      tables = []\<rparr>"

text \<open>
  Runs and paragraphs: a text run, a run with one drawing and some text, a paragraph that is
  not a list item, a list item with the given outcome of reading its level.
\<close>

definition text_run :: "pystr \<Rightarrow> run" where
  "text_run s = \<lparr>drawings = [], run_text = s\<rparr>"

definition image_run :: "pystr \<Rightarrow> pystr \<Rightarrow> run" where
  "image_run rid s = \<lparr>drawings = [\<lparr>blips = [Some rid]\<rparr>], run_text = s\<rparr>"

definition plain_par :: "run list \<Rightarrow> docx_paragraph" where
  "plain_par rs = \<lparr>pPr = None, runs = rs\<rparr>"

definition list_par :: "error + int \<Rightarrow> run list \<Rightarrow> docx_paragraph" where
  "list_par lv rs = \<lparr>pPr = Some \<lparr>numPr = Some \<lparr>ilvl = Some \<lparr>ilvl_val = lv\<rparr>\<rparr>\<rparr>, runs = rs\<rparr>"

definition example_map :: "pystr \<rightharpoonup> pystr" where
  "example_map = [str ''rId1'' \<mapsto> str ''doc_Image01.png'']"

definition example_par :: docx_paragraph where
  "example_par =
     plain_par [text_run (str ''  see ''), image_run (str ''rId1'') (str ''junk''),
                image_run (str ''rId4'') [], text_run (str '' end '')]"

text \<open>
  A cell with two list items (the level of the second cannot be read), a paragraph of white
  space and a plain paragraph; a table with a header row, two rows of cards, a row with one
  cell and a row whose two cells are empty; the example document with this table.
\<close>

definition example_cell :: cell where
  "example_cell =
     \<lparr>paragraphs =
        [list_par (Inr 1) [text_run (str ''item1'')],
         list_par (Inl ValueError) [text_run (str ''item2'')],
         plain_par [text_run (str ''  '')],
         plain_par [text_run (str ''plain'')]]\<rparr>"

text \<open>A cell with a list item whose level is \<open>10^20\<close>.\<close>

definition huge_level_cell :: cell where
  "huge_level_cell =
     \<lparr>paragraphs = [list_par (Inr 100000000000000000000) [text_run (str ''item'')]]\<rparr>"

definition example_table :: table where
  "example_table =
     \<lparr>rows =
        [\<lparr>cells = [\<lparr>paragraphs = [plain_par [text_run (str ''Title'')]]\<rparr>,
                   \<lparr>paragraphs = [plain_par [text_run (str ''Detail'')]]\<rparr>]\<rparr>,
         \<lparr>cells = [\<lparr>paragraphs = [plain_par [text_run (str ''Cats'')]]\<rparr>,
                   \<lparr>paragraphs = [list_par (Inr 0) [text_run (str ''item1'')],
                                  list_par (Inr 0) [text_run (str ''item2'')]]\<rparr>]\<rparr>,
         \<lparr>cells = [\<lparr>paragraphs = [plain_par [text_run (str ''Dogs'')]]\<rparr>,
                   \<lparr>paragraphs = [plain_par [image_run (str ''rId1'') []]]\<rparr>]\<rparr>,
         \<lparr>cells = [\<lparr>paragraphs = [plain_par [text_run (str ''alone'')]]\<rparr>]\<rparr>,
         \<lparr>cells = [\<lparr>paragraphs = [plain_par [text_run (str ''  '')]]\<rparr>,
                   \<lparr>paragraphs = [plain_par [text_run []]]\<rparr>]\<rparr>]\<rparr>"

definition example_table_doc :: docx where
  "example_table_doc = example_doc\<lparr>tables := [example_table]\<rparr>"

text \<open>
  A job for the example document, and an index from an earlier batch: an entry for another
  document and an entry for this one that carries an additional field.
\<close>

definition example_job :: job where
  "example_job =
     \<lparr>filename = str ''doc.docx'', document = example_table_doc,
      parsed_at = str ''2024-05-01T10:00:00+00:00''\<rparr>"

definition old_index :: manifest_index where
  "old_index =
     [(str ''old.json'',
       [(str ''path'', str ''old.json''), (str ''type'', str ''json''),
        (str ''source_docx'', str ''old.docx''),
        (str ''parsed_at'', str ''2023-01-01T00:00:00+00:00'')]),
      (str ''doc.json'',
       [(str ''path'', str ''doc.json''), (str ''type'', str ''json''),
        (str ''source_docx'', str ''doc.docx''),
        (str ''parsed_at'', str ''2023-01-01T00:00:00+00:00''),
        (str ''note'', str ''reviewed'')])]"

section \<open>Auxiliary facts\<close>

lemma first_seen_Nil [simp]: "first_seen [] = []"
  by (simp add: first_seen_def)

lemma first_seen_snoc:
  "first_seen (xs @ [x]) = (if x \<in> set xs then first_seen xs else first_seen xs @ [x])"
  by (simp add: first_seen_def)

lemma set_first_seen [simp]: "set (first_seen xs) = set xs"
  by (simp add: first_seen_def)

lemma distinct_first_seen [simp]: "distinct (first_seen xs)"
  by (simp add: first_seen_def)

lemma index_of_Nil [simp]: "index_of x [] = 0"
  by (simp add: index_of_def)

lemma index_of_Cons [simp]:
  "index_of x (y # ys) = (if y = x then 0 else Suc (index_of x ys))"
  by (simp add: index_of_def)

lemma index_of_append_mem: "x \<in> set xs \<Longrightarrow> index_of x (xs @ ys) = index_of x xs"
  by (induction xs) auto

lemma index_of_snoc_new: "x \<notin> set xs \<Longrightarrow> index_of x (xs @ [x]) = length xs"
  by (induction xs) auto

lemma index_of_less: "x \<in> set xs \<Longrightarrow> index_of x xs < length xs"
  by (induction xs) auto

lemma nth_index_of: "x \<in> set xs \<Longrightarrow> xs ! index_of x xs = x"
  by (induction xs) auto

lemma index_of_nth: "distinct xs \<Longrightarrow> i < length xs \<Longrightarrow> index_of (xs ! i) xs = i"
  by (induction xs arbitrary: i) (auto simp: nth_Cons split: nat.splits)

lemma resolved_name_append:
  "zp \<in> set ds \<Longrightarrow> resolved_name d b (ds @ es) zp = resolved_name d b ds zp"
  by (simp add: resolved_name_def index_of_append_mem split: option.splits)

lemma extract_loop_Nil: "extract_loop d b [] = extract_init"
  by (simp add: extract_loop_def)

lemma extract_loop_snoc:
  "extract_loop d b (items @ [it]) = extract_step d b it (extract_loop d b items)"
  by (simp add: extract_loop_def)

lemma zip_paths_snoc: "zip_paths (items @ [it]) = zip_paths items @ [zip_path_of (snd it)]"
  by (simp add: zip_paths_def)

lemma zip_path_mem: "(rid, t) \<in> set items \<Longrightarrow> zip_path_of t \<in> set (zip_paths items)"
  by (force simp: zip_paths_def)

text \<open>What one iteration does, by the three cases of the loop body.\<close>

lemma extract_step_cached:
  "target_to_final s (zip_path_of t) = Some r \<Longrightarrow>
   extract_step d b (rid, t) s = record_name rid r s"
  by (simp add: extract_step_def)

lemma extract_step_missing:
  "target_to_final s (zip_path_of t) = None \<Longrightarrow> zip_entries d (zip_path_of t) = None \<Longrightarrow>
   extract_step d b (rid, t) s =
     s\<lparr>counter := counter s + 1, opened := opened s @ [zip_path_of t],
       target_to_final := (target_to_final s)(zip_path_of t \<mapsto> None)\<rparr>"
  by (simp add: extract_step_def Let_def zip_open_def record_name_def)

lemma extract_step_copied:
  "target_to_final s (zip_path_of t) = None \<Longrightarrow> zip_entries d (zip_path_of t) = Some c \<Longrightarrow>
   extract_step d b (rid, t) s =
     s\<lparr>counter := counter s + 1, opened := opened s @ [zip_path_of t],
       written := written s @ [(final_name_of b (counter s) (zip_path_of t), c)],
       target_to_final :=
         (target_to_final s)(zip_path_of t \<mapsto> Some (final_name_of b (counter s) (zip_path_of t))),
       image_map := (image_map s)(rid \<mapsto> final_name_of b (counter s) (zip_path_of t)),
       all_final_names :=
         insert (final_name_of b (counter s) (zip_path_of t)) (all_final_names s)\<rparr>"
  by (simp add: extract_step_def Let_def zip_open_def record_name_def)

lemma record_name_fields [simp]:
  "counter (record_name rid r s) = counter s"
  "opened (record_name rid r s) = opened s"
  "written (record_name rid r s) = written s"
  "target_to_final (record_name rid r s) = target_to_final s"
  by (simp_all add: record_name_def split: option.splits)

lemma image_map_record_name:
  "image_map (record_name rid r s) = (case r of None \<Rightarrow> image_map s | Some f \<Rightarrow> (image_map s)(rid \<mapsto> f))"
  by (simp add: record_name_def split: option.splits)

lemma extract_loop_core:
  "counter (extract_loop d b items) = length (first_seen (zip_paths items)) + 1 \<and>
   opened (extract_loop d b items) = first_seen (zip_paths items) \<and>
   target_to_final (extract_loop d b items) =
     (\<lambda>zp. if zp \<in> set (zip_paths items)
           then Some (resolved_name d b (first_seen (zip_paths items)) zp) else None)"
proof (induction items rule: rev_induct)
  case Nil
  show ?case by (simp add: extract_loop_Nil extract_init_def zip_paths_def)
next
  case (snoc it items)
  obtain rid t where it: "it = (rid, t)" by (cases it)
  define s where "s = extract_loop d b items"
  define ds where "ds = first_seen (zip_paths items)"
  define zp where "zp = zip_path_of t"
  from snoc have c: "counter s = length ds + 1" and o: "opened s = ds"
    and tf: "target_to_final s =
       (\<lambda>zp. if zp \<in> set (zip_paths items) then Some (resolved_name d b ds zp) else None)"
    unfolding s_def ds_def by simp_all
  have sds: "set ds = set (zip_paths items)" by (simp add: ds_def)
  show ?case
  proof (cases "zp \<in> set (zip_paths items)")
    case True
    then have ds': "first_seen (zip_paths (items @ [it])) = ds"
      by (simp add: zip_paths_snoc first_seen_snoc ds_def it zp_def)
    have "target_to_final s zp = Some (resolved_name d b ds zp)"
      using True by (simp add: tf)
    then have step: "extract_step d b it s = record_name rid (resolved_name d b ds zp) s"
      unfolding it zp_def by (rule extract_step_cached)
    show ?thesis
      unfolding extract_loop_snoc s_def[symmetric] ds' step
      using c o tf True by (auto simp: zip_paths_snoc it zp_def[symmetric])
  next
    case False
    then have ds': "first_seen (zip_paths (items @ [it])) = ds @ [zp]"
      by (simp add: zip_paths_snoc first_seen_snoc ds_def it zp_def)
    have rn: "\<And>x. x \<in> set (zip_paths items) \<Longrightarrow>
                resolved_name d b (ds @ [zp]) x = resolved_name d b ds x"
      using sds by (simp add: resolved_name_append)
    have zpn: "zp \<notin> set ds" using False sds by simp
    have none: "target_to_final s zp = None" using False by (simp add: tf)
    show ?thesis
    proof (cases "zip_entries d zp")
      case None
      have step: "extract_step d b it s =
          s\<lparr>counter := counter s + 1, opened := opened s @ [zp],
            target_to_final := (target_to_final s)(zp \<mapsto> None)\<rparr>"
        unfolding it zp_def using none None unfolding zp_def by (rule extract_step_missing)
      have rnew: "resolved_name d b (ds @ [zp]) zp = None"
        using None by (simp add: resolved_name_def)
      show ?thesis
        unfolding extract_loop_snoc s_def[symmetric] ds' step
        using c o rn rnew
        by (auto simp: zip_paths_snoc it zp_def[symmetric] tf fun_eq_iff)
    next
      case (Some content)
      have step: "extract_step d b it s =
         s\<lparr>counter := counter s + 1, opened := opened s @ [zp],
           written := written s @ [(final_name_of b (counter s) zp, content)],
           target_to_final := (target_to_final s)(zp \<mapsto> Some (final_name_of b (counter s) zp)),
           image_map := (image_map s)(rid \<mapsto> final_name_of b (counter s) zp),
           all_final_names := insert (final_name_of b (counter s) zp) (all_final_names s)\<rparr>"
        unfolding it zp_def using none Some unfolding zp_def by (rule extract_step_copied)
      have rnew: "resolved_name d b (ds @ [zp]) zp = Some (final_name_of b (counter s) zp)"
        using Some zpn by (simp add: resolved_name_def index_of_snoc_new c)
      show ?thesis
        unfolding extract_loop_snoc s_def[symmetric] ds' step
        using c o rn rnew
        by (auto simp: zip_paths_snoc it zp_def[symmetric] tf fun_eq_iff)
    qed
  qed
qed


lemma first_seen_snoc_app:
  "first_seen (xs @ [x]) = first_seen xs @ (if x \<in> set xs then [] else [x])"
  by (simp add: first_seen_snoc)

lemma resolved_name_snoc:
  "zp \<in> set xs \<Longrightarrow>
   resolved_name d b (first_seen (xs @ [x])) zp = resolved_name d b (first_seen xs) zp"
  unfolding first_seen_snoc_app by (rule resolved_name_append) simp

lemma image_map_snoc:
  "image_map (extract_loop d b (items @ [(rid, t)])) =
     (case resolved_name d b (first_seen (zip_paths (items @ [(rid, t)]))) (zip_path_of t) of
        None \<Rightarrow> image_map (extract_loop d b items)
      | Some f \<Rightarrow> (image_map (extract_loop d b items))(rid \<mapsto> f))"
proof -
  define s where "s = extract_loop d b items"
  define ds where "ds = first_seen (zip_paths items)"
  define zp where "zp = zip_path_of t"
  have c: "counter s = length ds + 1"
    and tf: "target_to_final s =
       (\<lambda>zp. if zp \<in> set (zip_paths items) then Some (resolved_name d b ds zp) else None)"
    unfolding s_def ds_def using extract_loop_core [of d b items] by simp_all
  have zs: "zip_paths (items @ [(rid, t)]) = zip_paths items @ [zp]"
    by (simp add: zip_paths_snoc zp_def)
  show ?thesis
  proof (cases "zp \<in> set (zip_paths items)")
    case True
    have "target_to_final s zp = Some (resolved_name d b ds zp)"
      using True by (simp add: tf)
    then have step: "extract_step d b (rid, t) s = record_name rid (resolved_name d b ds zp) s"
      unfolding zp_def by (rule extract_step_cached)
    have "resolved_name d b (first_seen (zip_paths items @ [zp])) zp = resolved_name d b ds zp"
      unfolding ds_def using True by (rule resolved_name_snoc)
    then show ?thesis
      unfolding extract_loop_snoc s_def[symmetric] step zs zp_def[symmetric]
      by (simp add: image_map_record_name)
  next
    case False
    have none: "target_to_final s zp = None" using False by (simp add: tf)
    have zpn: "zp \<notin> set ds" using False by (simp add: ds_def)
    have ds': "first_seen (zip_paths items @ [zp]) = ds @ [zp]"
      using False by (simp add: first_seen_snoc ds_def)
    show ?thesis
    proof (cases "zip_entries d zp")
      case None
      have step: "extract_step d b (rid, t) s =
          s\<lparr>counter := counter s + 1, opened := opened s @ [zp],
            target_to_final := (target_to_final s)(zp \<mapsto> None)\<rparr>"
        using none None unfolding zp_def by (rule extract_step_missing)
      have rnew: "resolved_name d b (ds @ [zp]) zp = None"
        using None by (simp add: resolved_name_def)
      show ?thesis
        unfolding extract_loop_snoc s_def[symmetric] step zs zp_def[symmetric] ds' rnew
        by simp
    next
      case (Some content)
      have step: "extract_step d b (rid, t) s =
         s\<lparr>counter := counter s + 1, opened := opened s @ [zp],
           written := written s @ [(final_name_of b (counter s) zp, content)],
           target_to_final := (target_to_final s)(zp \<mapsto> Some (final_name_of b (counter s) zp)),
           image_map := (image_map s)(rid \<mapsto> final_name_of b (counter s) zp),
           all_final_names := insert (final_name_of b (counter s) zp) (all_final_names s)\<rparr>"
        using none Some unfolding zp_def by (rule extract_step_copied)
      have rnew: "resolved_name d b (ds @ [zp]) zp = Some (final_name_of b (counter s) zp)"
        using Some zpn by (simp add: resolved_name_def index_of_snoc_new c)
      show ?thesis
        unfolding extract_loop_snoc s_def[symmetric] step zs zp_def[symmetric] ds' rnew
        by simp
    qed
  qed
qed

lemma image_map_origin:
  "image_map (extract_loop d b items) rid = Some f \<Longrightarrow>
   \<exists>t. (rid, t) \<in> set items \<and>
       resolved_name d b (first_seen (zip_paths items)) (zip_path_of t) = Some f"
proof (induction items rule: rev_induct)
  case Nil
  then show ?case by (simp add: extract_loop_Nil extract_init_def)
next
  case (snoc it items)
  obtain r u where it: "it = (r, u)" by (cases it)
  have keep: "\<And>t. (rid, t) \<in> set items \<Longrightarrow>
      resolved_name d b (first_seen (zip_paths (items @ [it]))) (zip_path_of t) =
      resolved_name d b (first_seen (zip_paths items)) (zip_path_of t)"
    unfolding zip_paths_snoc by (rule resolved_name_snoc) (rule zip_path_mem)
  show ?case
  proof (cases "image_map (extract_loop d b items) rid = Some f")
    case True
    from snoc.IH [OF True] obtain t where "(rid, t) \<in> set items"
      and "resolved_name d b (first_seen (zip_paths items)) (zip_path_of t) = Some f" by blast
    then show ?thesis using keep by auto
  next
    case False
    with snoc.prems have "rid = r \<and>
       resolved_name d b (first_seen (zip_paths (items @ [it]))) (zip_path_of u) = Some f"
      unfolding it image_map_snoc by (auto split: option.splits if_splits)
    then show ?thesis by (auto simp: it)
  qed
qed

lemma image_map_resolved:
  "distinct (map fst items) \<Longrightarrow> (rid, t) \<in> set items \<Longrightarrow>
   image_map (extract_loop d b items) rid =
     resolved_name d b (first_seen (zip_paths items)) (zip_path_of t)"
proof (induction items rule: rev_induct)
  case Nil
  then show ?case by simp
next
  case (snoc it items)
  obtain r u where it: "it = (r, u)" by (cases it)
  from snoc.prems(1) have dist: "distinct (map fst items)" and fresh: "r \<notin> fst ` set items"
    by (simp_all add: it)
  show ?case
  proof (cases "(rid, t) \<in> set items")
    case True
    then have ne: "rid \<noteq> r" using fresh by force
    have "resolved_name d b (first_seen (zip_paths (items @ [it]))) (zip_path_of t) =
          resolved_name d b (first_seen (zip_paths items)) (zip_path_of t)"
      unfolding zip_paths_snoc using True by (intro resolved_name_snoc zip_path_mem)
    moreover have "image_map (extract_loop d b (items @ [it])) rid =
          image_map (extract_loop d b items) rid"
      unfolding it image_map_snoc using ne by (simp split: option.splits)
    ultimately show ?thesis using snoc.IH [OF dist True] by simp
  next
    case False
    with snoc.prems(2) have eq: "rid = r" "t = u" by (simp_all add: it)
    have "image_map (extract_loop d b items) r = None"
    proof (rule ccontr)
      assume "image_map (extract_loop d b items) r \<noteq> None"
      then obtain f where "image_map (extract_loop d b items) r = Some f" by blast
      from image_map_origin [OF this] fresh show False by force
    qed
    then show ?thesis
      unfolding eq it image_map_snoc by (simp split: option.splits)
  qed
qed

lemma distinct_relid_to_target: "distinct (map fst (relid_to_target rs))"
proof -
  have "distinct (map fst acc) \<Longrightarrow>
        distinct (map fst (fold (\<lambda>r acc. if contains (str ''image'') (reltype r)
                    then AList.update (rId r) (target_ref r) acc else acc) rs acc))" for acc
    by (induction rs arbitrary: acc) (simp_all add: distinct_update)
  then show ?thesis by (simp add: relid_to_target_def)
qed

lemma decimal_value_snoc: "decimal_value (xs @ [c]) = 10 * decimal_value xs + nat (c - 48)"
  by (simp add: decimal_value_def)

lemma decimal_value_decimal: "decimal_value (decimal n) = n"
proof (induction n rule: decimal.induct)
  case (1 n)
  show ?case
  proof (cases "n < 10")
    case True
    then show ?thesis by (simp add: decimal.simps [of n] decimal_value_def)
  next
    case False
    with 1 have "decimal_value (decimal (n div 10)) = n div 10" by simp
    with False show ?thesis
      by (simp add: decimal.simps [of n] decimal_value_snoc)
  qed
qed

lemma decimal_inj: "decimal i = decimal j \<Longrightarrow> i = j"
  by (metis decimal_value_decimal)

lemma decimal_digits: "set (decimal n) \<subseteq> {48..57}"
proof (induction n rule: decimal.induct)
  case (1 n)
  show ?case
  proof (cases "n < 10")
    case True
    then show ?thesis by (simp add: decimal.simps [of n])
  next
    case False
    with 1 have "set (decimal (n div 10)) \<subseteq> {48..57}" by simp
    moreover have "n mod 10 < 10" by simp
    ultimately show ?thesis using False
      by (simp add: decimal.simps [of n])
  qed
qed

lemma length_decimal_pos: "0 < length (decimal n)"
  by (subst decimal.simps) simp

lemma length_decimal_1: "length (decimal n) = 1 \<longleftrightarrow> n < 10"
  using length_decimal_pos [of "n div 10"] by (subst decimal.simps) auto

lemma length_decimal_2: "length (decimal n) = 2 \<longleftrightarrow> 10 \<le> n \<and> n < 100"
proof (cases "n < 10")
  case True
  then show ?thesis using length_decimal_1 [of n] by simp
next
  case False
  then have "length (decimal n) = Suc (length (decimal (n div 10)))"
    by (subst decimal.simps) simp
  moreover have "length (decimal (n div 10)) = 1 \<longleftrightarrow> n div 10 < 10"
    by (rule length_decimal_1)
  ultimately show ?thesis using False by auto
qed

lemma decimal_value_zeros: "decimal_value (replicate k 48 @ s) = decimal_value s"
proof -
  have "foldl (\<lambda>a c. 10 * a + nat (c - 48)) 0 (replicate k (48::int)) = 0"
    by (induction k) simp_all
  then show ?thesis by (simp add: decimal_value_def)
qed

lemma format_02d_value: "decimal_value (format_02d n) = n"
  by (simp add: format_02d_def Let_def decimal_value_zeros decimal_value_decimal)

lemma format_02d_digits: "set (format_02d n) \<subseteq> {48..57}"
  using decimal_digits [of n] by (auto simp: format_02d_def Let_def)

lemma length_format_02d: "2 \<le> length (format_02d n) \<and> (length (format_02d n) = 2 \<longleftrightarrow> n < 100)"
proof -
  have "length (format_02d n) = max 2 (length (decimal n))"
    by (simp add: format_02d_def Let_def)
  moreover have "length (decimal n) \<le> 2 \<longleftrightarrow> n < 100"
    using length_decimal_1 [of n] length_decimal_2 [of n] length_decimal_pos [of n]
    by arith
  ultimately show ?thesis by auto
qed

lemma map_filter_cong_set:
  "(\<And>x. x \<in> set xs \<Longrightarrow> f x = g x) \<Longrightarrow> List.map_filter f xs = List.map_filter g xs"
  by (induction xs) (simp_all add: List.map_filter_simps split: option.splits)

lemma map_filter_snoc:
  "List.map_filter f (xs @ [x]) = List.map_filter f xs @ (case f x of None \<Rightarrow> [] | Some y \<Rightarrow> [y])"
  by (induction xs) (simp_all add: List.map_filter_simps split: option.splits)

lemma copied_files_snoc:
  "zp \<notin> set ds \<Longrightarrow>
   copied_files d b (ds @ [zp]) =
     copied_files d b ds @
       (case zip_entries d zp of None \<Rightarrow> []
        | Some c \<Rightarrow> [(final_name_of b (length ds + 1) zp, c)])"
proof -
  assume new: "zp \<notin> set ds"
  have "List.map_filter
       (\<lambda>x. case zip_entries d x of None \<Rightarrow> None
              | Some c \<Rightarrow> Some (final_name_of b (index_of x (ds @ [zp]) + 1) x, c)) ds
      = copied_files d b ds"
    unfolding copied_files_def
    by (rule map_filter_cong_set) (simp add: index_of_append_mem split: option.splits)
  then show ?thesis
    using new
    by (simp add: copied_files_def [of d b "ds @ [zp]"] map_filter_snoc index_of_snoc_new
        split: option.splits)
qed

lemma extract_loop_written:
  "written (extract_loop d b items) = copied_files d b (first_seen (zip_paths items))"
proof (induction items rule: rev_induct)
  case Nil
  show ?case
    by (simp add: extract_loop_Nil extract_init_def zip_paths_def copied_files_def
        List.map_filter_simps)
next
  case (snoc it items)
  obtain rid t where it: "it = (rid, t)" by (cases it)
  define s where "s = extract_loop d b items"
  define ds where "ds = first_seen (zip_paths items)"
  define zp where "zp = zip_path_of t"
  have c: "counter s = length ds + 1"
    and tf: "target_to_final s =
       (\<lambda>zp. if zp \<in> set (zip_paths items) then Some (resolved_name d b ds zp) else None)"
    unfolding s_def ds_def using extract_loop_core [of d b items] by simp_all
  have w: "written s = copied_files d b ds"
    unfolding s_def ds_def by (rule snoc.IH)
  have zs: "zip_paths (items @ [it]) = zip_paths items @ [zp]"
    by (simp add: zip_paths_snoc zp_def it)
  show ?case
  proof (cases "zp \<in> set (zip_paths items)")
    case True
    have "target_to_final s zp = Some (resolved_name d b ds zp)"
      using True by (simp add: tf)
    then have step: "extract_step d b it s = record_name rid (resolved_name d b ds zp) s"
      unfolding zp_def it by (rule extract_step_cached)
    have ds': "first_seen (zip_paths items @ [zp]) = ds"
      using True by (simp add: first_seen_snoc ds_def)
    show ?thesis
      unfolding extract_loop_snoc s_def[symmetric] step zs ds' by (simp add: w)
  next
    case False
    have none: "target_to_final s zp = None" using False by (simp add: tf)
    have zpn: "zp \<notin> set ds" using False by (simp add: ds_def)
    have ds': "first_seen (zip_paths items @ [zp]) = ds @ [zp]"
      using False by (simp add: first_seen_snoc ds_def)
    show ?thesis
    proof (cases "zip_entries d zp")
      case None
      have step: "extract_step d b it s =
          s\<lparr>counter := counter s + 1, opened := opened s @ [zp],
            target_to_final := (target_to_final s)(zp \<mapsto> None)\<rparr>"
        using none None unfolding zp_def it by (rule extract_step_missing)
      show ?thesis
        unfolding extract_loop_snoc s_def[symmetric] step zs ds'
        using None by (simp add: w copied_files_snoc [OF zpn])
    next
      case (Some content)
      have step: "extract_step d b it s =
         s\<lparr>counter := counter s + 1, opened := opened s @ [zp],
           written := written s @ [(final_name_of b (counter s) zp, content)],
           target_to_final := (target_to_final s)(zp \<mapsto> Some (final_name_of b (counter s) zp)),
           image_map := (image_map s)(rid \<mapsto> final_name_of b (counter s) zp),
           all_final_names := insert (final_name_of b (counter s) zp) (all_final_names s)\<rparr>"
        using none Some unfolding zp_def it by (rule extract_step_copied)
      show ?thesis
        unfolding extract_loop_snoc s_def[symmetric] step zs ds'
        using Some by (simp add: w c copied_files_snoc [OF zpn])
    qed
  qed
qed

lemma Document_loads: "loads d \<Longrightarrow> Document d = Inr d"
proof -
  assume "loads d"
  then have "List.find (\<lambda>r. \<not> is_external r \<and> zip_entries d (membername (target_partname r)) = None)
      (rels d) = None"
    by (auto simp: loads_def list_all_iff find_None_iff)
  then show ?thesis by (simp add: Document_def)
qed

lemma Document_not_loads: "\<not> loads d \<Longrightarrow> \<exists>m. Document d = Inl (KeyError m)"
proof -
  assume "\<not> loads d"
  then have "List.find (\<lambda>r. \<not> is_external r \<and> zip_entries d (membername (target_partname r)) = None)
      (rels d) \<noteq> None"
    by (auto simp: loads_def list_all_iff find_None_iff)
  then show ?thesis by (auto simp: Document_def)
qed

lemma extract_images_loads:
  "loads d \<Longrightarrow>
   extract_images_from_docx d b =
     Inr (image_map (extract_run d b), sorted_list_of_set (all_final_names (extract_run d b)))"
  by (simp add: extract_images_from_docx_def Document_loads Let_def)

lemma extract_images_not_loads:
  "\<not> loads d \<Longrightarrow> \<exists>m. extract_images_from_docx d b = Inl (KeyError m)"
  using Document_not_loads [of d] by (auto simp: extract_images_from_docx_def)

lemma extract_images_Inr:
  assumes "extract_images_from_docx d b = Inr (imap, imgs)"
  shows "loads d \<and> imap = image_map (extract_run d b) \<and>
         imgs = sorted_list_of_set (all_final_names (extract_run d b))"
proof (cases "loads d")
  case True
  with assms show ?thesis by (simp add: extract_images_loads)
next
  case False
  with assms show ?thesis using extract_images_not_loads [of d b] by auto
qed

lemma extract_run_resolved:
  "(rid, t) \<in> set (relid_to_target (rels d)) \<Longrightarrow>
   image_map (extract_run d b) rid =
     resolved_name d b (first_seen (zip_paths (relid_to_target (rels d)))) (zip_path_of t)"
  unfolding extract_run_def
  by (rule image_map_resolved [OF distinct_relid_to_target])

lemma drawing_step_unresolved:
  "(\<And>x. drawing_rid dr = Some x \<Longrightarrow> imap x = None) \<Longrightarrow> drawing_step imap dr out = out"
  by (auto simp: drawing_step_def drawing_rid_def split: list.splits option.splits)

lemma drawing_step_resolved:
  "drawing_rid dr = Some x \<Longrightarrow> imap x = Some f \<Longrightarrow>
   drawing_step imap dr out = out @ [str ''[[image:'' @ f @ str '']]'']"
  by (auto simp: drawing_step_def drawing_rid_def split: list.splits option.splits)

lemma fold_drawing_step_unresolved:
  "(\<And>dr x. dr \<in> set drs \<Longrightarrow> drawing_rid dr = Some x \<Longrightarrow> imap x = None) \<Longrightarrow>
   fold (drawing_step imap) drs out = out"
proof (induction drs arbitrary: out)
  case Nil
  show ?case by simp
next
  case (Cons dr drs)
  have "drawing_step imap dr out = out"
    by (rule drawing_step_unresolved) (rule Cons.prems, simp_all)
  moreover have "fold (drawing_step imap) drs out = out"
    by (rule Cons.IH) (rule Cons.prems, simp_all)
  ultimately show ?case by simp
qed

lemma extract_run_missing:
  "(rid, t) \<in> set (relid_to_target (rels d)) \<Longrightarrow> zip_entries d (zip_path_of t) = None \<Longrightarrow>
   image_map (extract_run d b) rid = None"
  by (simp add: extract_run_resolved resolved_name_def)

text \<open>
  What the loop and the run renderer do with an image that is not there: a relationship whose
  normalized target is not in the container gets no entry in the image map of the loop, and
  a drawing whose relationship identifier is not in the image map appends nothing.
\<close>

lemma loop_skips_missing_entry:
  "((rid, t) \<in> set (relid_to_target (rels d)) \<and> zip_entries d (zip_path_of t) = None \<longrightarrow>
      zip_open d (zip_path_of t) = Inl (KeyError (zip_path_of t)) \<and>
      image_map (extract_run d b) rid = None \<and>
      (\<forall>dr out. drawing_rid dr = Some rid \<longrightarrow>
         drawing_step (image_map (extract_run d b)) dr out = out)) \<and>
   ((\<forall>x. drawing_rid dr = Some x \<longrightarrow> imap x = None) \<longrightarrow> drawing_step imap dr out = out) \<and>
   (drawings r \<noteq> [] \<and> (\<forall>dr \<in> set (drawings r). \<forall>x. drawing_rid dr = Some x \<longrightarrow> imap x = None) \<longrightarrow>
      run_step imap r out = out)"
proof (intro conjI impI allI)
  assume h: "(rid, t) \<in> set (relid_to_target (rels d)) \<and> zip_entries d (zip_path_of t) = None"
  then show "zip_open d (zip_path_of t) = Inl (KeyError (zip_path_of t))"
    by (simp add: zip_open_def)
  from h show none: "image_map (extract_run d b) rid = None"
    by (blast intro: extract_run_missing)
  fix dr out
  assume "drawing_rid dr = Some rid"
  with none show "drawing_step (image_map (extract_run d b)) dr out = out"
    by (intro drawing_step_unresolved) simp
next
  assume "\<forall>x. drawing_rid dr = Some x \<longrightarrow> imap x = None"
  then show "drawing_step imap dr out = out"
    by (intro drawing_step_unresolved) simp
next
  assume h: "drawings r \<noteq> [] \<and>
    (\<forall>dr \<in> set (drawings r). \<forall>x. drawing_rid dr = Some x \<longrightarrow> imap x = None)"
  then have "fold (drawing_step imap) (drawings r) out = out"
    by (intro fold_drawing_step_unresolved) blast
  with h show "run_step imap r out = out"
    by (simp add: run_step_def)
qed

lemma first_seen_distinct: "distinct xs \<Longrightarrow> first_seen xs = xs"
  by (simp add: first_seen_def distinct_remdups_id)

lemma update_fresh: "k \<notin> fst ` set al \<Longrightarrow> AList.update k v al = al @ [(k, v)]"
  by (induction al) auto

lemma relid_to_target_images:
  assumes "distinct (map rId rs)"
    and "\<And>r. r \<in> set rs \<Longrightarrow> contains (str ''image'') (reltype r)"
  shows "relid_to_target rs = map (\<lambda>r. (rId r, target_ref r)) rs"
proof -
  have "distinct (map fst acc @ map rId rs) \<Longrightarrow>
        (\<And>r. r \<in> set rs \<Longrightarrow> contains (str ''image'') (reltype r)) \<Longrightarrow>
        fold (\<lambda>r acc. if contains (str ''image'') (reltype r)
                    then AList.update (rId r) (target_ref r) acc else acc) rs acc
        = acc @ map (\<lambda>r. (rId r, target_ref r)) rs" for acc
  proof (induction rs arbitrary: acc)
    case Nil
    show ?case by simp
  next
    case (Cons r rs)
    have fresh: "rId r \<notin> fst ` set acc" using Cons.prems(1) by auto
    have d: "distinct (map fst (acc @ [(rId r, target_ref r)]) @ map rId rs)"
      using Cons.prems(1) by auto
    have "fold (\<lambda>r acc. if contains (str ''image'') (reltype r)
                    then AList.update (rId r) (target_ref r) acc else acc) rs
            (acc @ [(rId r, target_ref r)])
          = (acc @ [(rId r, target_ref r)]) @ map (\<lambda>r. (rId r, target_ref r)) rs"
      by (rule Cons.IH [OF d]) (simp add: Cons.prems(2))
    then show ?case
      using Cons.prems(2) [of r] by (simp add: update_fresh [OF fresh])
  qed
  from this [of "[]"] assms show ?thesis by (simp add: relid_to_target_def)
qed

lemma zip_path_of_media: "zip_path_of (str ''media/image'' @ s) = str ''word/media/image'' @ s"
  by (simp add: zip_path_of_def startswith_def str_def)

lemma hundred_items:
  "relid_to_target (rels hundred_images) =
     map (\<lambda>i. (str ''rId'' @ decimal i, str ''media/image'' @ decimal i @ str ''.png'')) [1 ..< 101]"
proof -
  have img: "contains (str ''image'') (str ''http://example.org/relationships/image'')"
    by code_simp
  have "distinct (map rId (rels hundred_images))"
    by (auto simp: hundred_images_def distinct_map inj_on_def comp_def dest: decimal_inj)
  moreover have "\<And>r. r \<in> set (rels hundred_images) \<Longrightarrow> contains (str ''image'') (reltype r)"
    using img by (auto simp: hundred_images_def)
  ultimately have "relid_to_target (rels hundred_images) =
      map (\<lambda>r. (rId r, target_ref r)) (rels hundred_images)"
    by (rule relid_to_target_images)
  then show ?thesis by (simp add: hundred_images_def comp_def)
qed

lemma hundred_paths:
  "zip_paths (relid_to_target (rels hundred_images)) =
     map (\<lambda>i. str ''word/media/image'' @ decimal i @ str ''.png'') [1 ..< 101]"
  by (simp add: hundred_items zip_paths_def comp_def zip_path_of_media)

lemma hundred_distinct:
  "distinct (map (\<lambda>i. str ''word/media/image'' @ decimal i @ str ''.png'') [1 ..< 101])"
  by (auto simp: distinct_map inj_on_def dest: decimal_inj)

lemma hundred_entry:
  "zip_entries hundred_images (str ''word/media/image'' @ decimal 100 @ str ''.png'') = Some ''PNG''"
proof -
  let ?l = "map (\<lambda>i. (str ''word/media/image'' @ decimal i @ str ''.png'', ''PNG'')) [1 ..< 101]"
  let ?k = "str ''word/media/image'' @ decimal 100 @ str ''.png''"
  have "?k \<in> fst ` set ?l" by force
  then obtain v where v: "map_of ?l ?k = Some v"
    by (metis map_of_eq_None_iff not_Some_eq)
  then have "(?k, v) \<in> set ?l" by (rule map_of_SomeD)
  then have "v = ''PNG''" by auto
  with v show ?thesis by (simp add: hundred_images_def)
qed

lemma membername_word: "membername (str ''/word/media/image'' @ s) = str ''word/media/image'' @ s"
  by (simp add: membername_def str_def)

lemma hundred_loads: "loads hundred_images"
proof -
  let ?l = "map (\<lambda>i. (str ''word/media/image'' @ decimal i @ str ''.png'', ''PNG'')) [1 ..< 101]"
  have "map_of ?l (str ''word/media/image'' @ decimal i @ str ''.png'') \<noteq> None"
    if "i \<in> set [1 ..< 101]" for i
  proof -
    have "str ''word/media/image'' @ decimal i @ str ''.png'' \<in> fst ` set ?l"
      using that by force
    then show ?thesis by (simp only: map_of_eq_None_iff not_not)
  qed
  then show ?thesis
    unfolding loads_def list_all_iff
    by (auto simp: hundred_images_def membername_word)
qed

lemma drawing_step_eq:
  "drawing_step imap dr out =
     out @ (case (case drawing_rid dr of None \<Rightarrow> None | Some x \<Rightarrow> imap x) of
              None \<Rightarrow> [] | Some f \<Rightarrow> [placeholder f])"
  by (simp add: drawing_step_def drawing_rid_def placeholder_def
      split: list.splits option.splits)

lemma fold_drawing_step:
  "fold (drawing_step imap) drs out = out @ map placeholder (resolved_images imap drs)"
proof (induction drs arbitrary: out)
  case Nil
  show ?case by (simp add: resolved_images_def List.map_filter_simps)
next
  case (Cons dr drs)
  have "fold (drawing_step imap) (dr # drs) out =
        drawing_step imap dr out @ map placeholder (resolved_images imap drs)"
    by (simp add: Cons.IH)
  also have "\<dots> = out @ map placeholder (resolved_images imap (dr # drs))"
    unfolding drawing_step_eq
    by (simp add: resolved_images_def List.map_filter_simps split: option.splits)
  finally show ?case .
qed

lemma run_step_eq:
  "concat (run_step imap r out) =
     concat out @ (if drawings r = [] then run_text r
                   else concat (map placeholder (resolved_images imap (drawings r))))"
  by (simp add: run_step_def fold_drawing_step)

lemma fold_run_step:
  "concat (fold (run_step imap) rs out) =
     concat out @ concat (map (\<lambda>r. if drawings r = [] then run_text r
                   else concat (map placeholder (resolved_images imap (drawings r)))) rs)"
proof (induction rs arbitrary: out)
  case Nil
  show ?case by simp
next
  case (Cons r rs)
  show ?case by (simp add: Cons.IH run_step_eq)
qed

lemma extract_paragraph_eq:
  "extract_paragraph_with_images p imap =
     strip (concat (map (\<lambda>r. if drawings r = [] then run_text r
                   else concat (map placeholder (resolved_images imap (drawings r)))) (runs p)))"
  by (simp add: extract_paragraph_with_images_def fold_run_step)

lemma dropWhile_rev_Nil:
  "(u \<noteq> [] \<Longrightarrow> \<not> P (hd u)) \<Longrightarrow> dropWhile P (rev u) = [] \<longleftrightarrow> u = []"
  by (cases u) auto

lemma strip_nonempty_iff: "strip s \<noteq> [] \<longleftrightarrow> (\<exists>c \<in> set s. \<not> isspace c)"
proof -
  define u where "u = dropWhile isspace s"
  have "u \<noteq> [] \<Longrightarrow> \<not> isspace (hd u)"
    unfolding u_def by (rule hd_dropWhile)
  then have "dropWhile isspace (rev u) = [] \<longleftrightarrow> u = []"
    by (rule dropWhile_rev_Nil)
  then have "strip s \<noteq> [] \<longleftrightarrow> u \<noteq> []"
    unfolding strip_def rev_is_Nil_conv u_def [symmetric] by (simp only:)
  also have "\<dots> \<longleftrightarrow> (\<exists>c \<in> set s. \<not> isspace c)"
    unfolding u_def by (simp add: dropWhile_eq_Nil_conv)
  finally show ?thesis .
qed

lemma strip_hd: "strip s \<noteq> [] \<Longrightarrow> \<not> isspace (hd (strip s))"
proof -
  assume ne: "strip s \<noteq> []"
  define u where "u = dropWhile isspace s"
  have une: "u \<noteq> []"
    using ne unfolding u_def strip_nonempty_iff dropWhile_eq_Nil_conv by blast
  then have h: "\<not> isspace (hd u)" unfolding u_def by (rule hd_dropWhile)
  have "strip s = rev (dropWhile isspace (rev u))" by (simp add: strip_def u_def)
  also have "\<dots> = hd u # rev (dropWhile isspace (rev (tl u)))"
  proof -
    have "rev u = rev (tl u) @ [hd u]" using une by (cases u) simp_all
    then have "dropWhile isspace (rev u) = dropWhile isspace (rev (tl u)) @ [hd u]"
      using h by (simp add: dropWhile_append)
    then show ?thesis by simp
  qed
  finally show ?thesis using h by simp
qed

lemma strip_last: "strip s \<noteq> [] \<Longrightarrow> \<not> isspace (last (strip s))"
proof -
  assume ne: "strip s \<noteq> []"
  define v where "v = dropWhile isspace (rev (dropWhile isspace s))"
  have vne: "v \<noteq> []" using ne by (simp add: strip_def v_def)
  then have "\<not> isspace (hd v)" unfolding v_def by (rule hd_dropWhile)
  moreover have "last (rev v) = hd v" using vne by (simp add: last_rev)
  ultimately show ?thesis by (simp add: strip_def v_def)
qed

lemma strip_idem: "strip (strip s) = strip s"
proof (cases "strip s = []")
  case True
  have "strip [] = []" by (simp add: strip_def)
  with True show ?thesis by simp
next
  case False
  define w where "w = strip s"
  have h: "\<not> isspace (hd w)" and l: "\<not> isspace (last w)" and ne: "w \<noteq> []"
    using False strip_hd [of s] strip_last [of s] by (simp_all add: w_def)
  have "dropWhile isspace w = w" using h ne by (cases w) simp_all
  moreover have "dropWhile isspace (rev w) = rev w"
    using l ne by (cases "rev w") (simp_all add: last_rev [symmetric] hd_rev)
  ultimately have "strip w = w" unfolding strip_def [of w] by simp
  then show ?thesis unfolding w_def .
qed

lemma fold_append_step:
  "(\<And>x acc. f x acc = acc @ g x) \<Longrightarrow> fold f xs acc = acc @ concat (map g xs)"
  by (induction xs arbitrary: acc) simp_all

lemma concat_map_if: "concat (map (\<lambda>x. if P x then [h x] else []) xs) = map h (filter P xs)"
  by (induction xs) simp_all

lemma nat_max_0: "nat (max 0 l) = nat l"
  by simp

lemma cell_text_step_ok:
  assumes "extract_paragraph_with_images p imap = [] \<or> \<not> is_list_paragraph p \<or>
           level_fits mem (get_list_level p)"
  shows "cell_text_step mem imap p lines =
     Inr (lines @ (if extract_paragraph_with_images p imap \<noteq> [] then [cell_line imap p] else []))"
  using assms
  by (auto simp: cell_text_step_def Let_def repeat_tab_def level_fits_def cell_line_def)

lemma cell_text_step_fail:
  assumes "extract_paragraph_with_images p imap \<noteq> []" and "is_list_paragraph p"
    and "\<not> level_fits mem (get_list_level p)"
  shows "cell_text_step mem imap p lines = Inl OverflowError \<or>
         cell_text_step mem imap p lines = Inl MemoryError"
  using assms
  by (auto simp: cell_text_step_def Let_def repeat_tab_def level_fits_def)

lemma cell_text_loop_ok:
  "list_all (\<lambda>p. extract_paragraph_with_images p imap = [] \<or> \<not> is_list_paragraph p \<or>
                  level_fits mem (get_list_level p)) ps \<Longrightarrow>
   cell_text_loop mem imap ps lines =
     Inr (lines @ map (cell_line imap)
            (filter (\<lambda>p. extract_paragraph_with_images p imap \<noteq> []) ps))"
proof (induction ps arbitrary: lines)
  case Nil
  show ?case by simp
next
  case (Cons p ps)
  from Cons.prems have p: "extract_paragraph_with_images p imap = [] \<or> \<not> is_list_paragraph p \<or>
      level_fits mem (get_list_level p)"
    and ps: "list_all (\<lambda>p. extract_paragraph_with_images p imap = [] \<or> \<not> is_list_paragraph p \<or>
                  level_fits mem (get_list_level p)) ps"
    by simp_all
  show ?case
    by (simp add: cell_text_step_ok [OF p] Cons.IH [OF ps])
qed

lemma cell_text_loop_fail:
  "\<not> list_all (\<lambda>p. extract_paragraph_with_images p imap = [] \<or> \<not> is_list_paragraph p \<or>
                  level_fits mem (get_list_level p)) ps \<Longrightarrow>
   cell_text_loop mem imap ps lines = Inl OverflowError \<or>
   cell_text_loop mem imap ps lines = Inl MemoryError"
proof (induction ps arbitrary: lines)
  case Nil
  then show ?case by simp
next
  case (Cons p ps)
  show ?case
  proof (cases "extract_paragraph_with_images p imap = [] \<or> \<not> is_list_paragraph p \<or>
      level_fits mem (get_list_level p)")
    case True
    with Cons.prems have "\<not> list_all (\<lambda>p. extract_paragraph_with_images p imap = [] \<or>
        \<not> is_list_paragraph p \<or> level_fits mem (get_list_level p)) ps"
      by auto
    from Cons.IH [OF this] show ?thesis
      by (simp add: cell_text_step_ok [OF True])
  next
    case False
    then have "cell_text_step mem imap p lines = Inl OverflowError \<or>
         cell_text_step mem imap p lines = Inl MemoryError"
      by (intro cell_text_step_fail) simp_all
    then show ?thesis by auto
  qed
qed

lemma extract_cell_text_ok:
  "cell_renders mem imap c \<Longrightarrow>
   extract_cell_text_preserve_lists_and_images mem c imap = Inr (cell_text_of imap c)"
  unfolding cell_renders_def
  by (simp add: extract_cell_text_preserve_lists_and_images_def cell_text_loop_ok cell_text_of_def)

lemma extract_cell_text_fail:
  "\<not> cell_renders mem imap c \<Longrightarrow>
   extract_cell_text_preserve_lists_and_images mem c imap = Inl OverflowError \<or>
   extract_cell_text_preserve_lists_and_images mem c imap = Inl MemoryError"
  unfolding cell_renders_def
  using cell_text_loop_fail [of imap mem "paragraphs c" "[]"]
  by (auto simp: extract_cell_text_preserve_lists_and_images_def)

lemma fold_cell_title_step:
  "fold (cell_title_step imap) ps parts =
     parts @ filter (\<lambda>c. c \<noteq> []) (map (\<lambda>p. extract_paragraph_with_images p imap) ps)"
proof -
  have "fold (cell_title_step imap) ps parts =
      parts @ concat (map (\<lambda>p. if extract_paragraph_with_images p imap \<noteq> []
          then [extract_paragraph_with_images p imap] else []) ps)"
    by (rule fold_append_step) (simp add: cell_title_step_def Let_def)
  then show ?thesis by (simp only: concat_map_if filter_map comp_def)
qed

lemma get_list_level_cases:
  "(pPr p = None \<longrightarrow> get_list_level p = 0) \<and>
   (\<forall>pp. pPr p = Some pp \<and> numPr pp = None \<longrightarrow> get_list_level p = 0) \<and>
   (\<forall>pp np. pPr p = Some pp \<and> numPr pp = Some np \<and> ilvl np = None \<longrightarrow> get_list_level p = 0) \<and>
   (\<forall>pp np lv e. pPr p = Some pp \<and> numPr pp = Some np \<and> ilvl np = Some lv \<and> ilvl_val lv = Inl e
      \<longrightarrow> get_list_level p = 0) \<and>
   (\<forall>pp np lv n. pPr p = Some pp \<and> numPr pp = Some np \<and> ilvl np = Some lv \<and> ilvl_val lv = Inr n
      \<longrightarrow> get_list_level p = n)"
  by (simp add: get_list_level_def)

lemma row_step_ok:
  assumes "length (cells r) < 2 \<or> cell_renders mem imap (cells r ! 1)"
  shows "row_step mem imap r cards =
     Inr (cards @
       (if 2 \<le> length (cells r) \<and>
           (extract_cell_title_with_images (cells r ! 0) imap \<noteq> [] \<or>
            cell_text_of imap (cells r ! 1) \<noteq> [])
        then [\<lparr>title = extract_cell_title_with_images (cells r ! 0) imap,
               detail = cell_text_of imap (cells r ! 1)\<rparr>]
        else []))"
proof (cases "length (cells r) < 2")
  case True
  then show ?thesis by (simp add: row_step_def)
next
  case False
  with assms have "cell_renders mem imap (cells r ! 1)" by simp
  then have "extract_cell_text_preserve_lists_and_images mem (cells r ! 1) imap =
      Inr (cell_text_of imap (cells r ! 1))"
    by (rule extract_cell_text_ok)
  with False show ?thesis by (simp add: row_step_def Let_def)
qed

lemma row_step_fail:
  assumes "\<not> length (cells r) < 2" and "\<not> cell_renders mem imap (cells r ! 1)"
  shows "row_step mem imap r cards = Inl OverflowError \<or> row_step mem imap r cards = Inl MemoryError"
  using assms extract_cell_text_fail [of mem imap "cells r ! 1"]
  by (auto simp: row_step_def Let_def)

lemma rows_loop_ok:
  "list_all (\<lambda>r. length (cells r) < 2 \<or> cell_renders mem imap (cells r ! 1)) rs \<Longrightarrow>
   rows_loop mem imap rs cards =
     Inr (cards @
       map (\<lambda>r. \<lparr>title = extract_cell_title_with_images (cells r ! 0) imap,
                 detail = cell_text_of imap (cells r ! 1)\<rparr>)
         (filter (\<lambda>r. extract_cell_title_with_images (cells r ! 0) imap \<noteq> [] \<or>
                      cell_text_of imap (cells r ! 1) \<noteq> [])
            (filter (\<lambda>r. 2 \<le> length (cells r)) rs)))"
proof (induction rs arbitrary: cards)
  case Nil
  show ?case by simp
next
  case (Cons r rs)
  from Cons.prems have r: "length (cells r) < 2 \<or> cell_renders mem imap (cells r ! 1)"
    and rs: "list_all (\<lambda>r. length (cells r) < 2 \<or> cell_renders mem imap (cells r ! 1)) rs"
    by simp_all
  show ?case
    by (simp add: row_step_ok [OF r] Cons.IH [OF rs])
qed

lemma rows_loop_fail:
  "\<not> list_all (\<lambda>r. length (cells r) < 2 \<or> cell_renders mem imap (cells r ! 1)) rs \<Longrightarrow>
   rows_loop mem imap rs cards = Inl OverflowError \<or> rows_loop mem imap rs cards = Inl MemoryError"
proof (induction rs arbitrary: cards)
  case Nil
  then show ?case by simp
next
  case (Cons r rs)
  show ?case
  proof (cases "length (cells r) < 2 \<or> cell_renders mem imap (cells r ! 1)")
    case True
    with Cons.prems have "\<not> list_all (\<lambda>r. length (cells r) < 2 \<or>
        cell_renders mem imap (cells r ! 1)) rs"
      by auto
    from Cons.IH [OF this] show ?thesis
      by (simp add: row_step_ok [OF True])
  next
    case False
    then have "row_step mem imap r cards = Inl OverflowError \<or>
        row_step mem imap r cards = Inl MemoryError"
      by (intro row_step_fail) simp_all
    then show ?thesis by auto
  qed
qed

lemma set_join_first: "set x \<subseteq> set (join sep (x # xs))"
  by (cases xs) auto

lemma extract_paragraph_nonspace:
  "extract_paragraph_with_images p imap \<noteq> [] \<Longrightarrow>
   \<exists>c \<in> set (extract_paragraph_with_images p imap). \<not> isspace c"
proof -
  assume ne: "extract_paragraph_with_images p imap \<noteq> []"
  then have "\<not> isspace (hd (extract_paragraph_with_images p imap))"
    unfolding extract_paragraph_with_images_def by (rule strip_hd)
  moreover have "hd (extract_paragraph_with_images p imap) \<in> set (extract_paragraph_with_images p imap)"
    using ne by simp
  ultimately show ?thesis by blast
qed

lemma cell_text_nonspace:
  assumes "cell_text_of imap c \<noteq> []"
  shows "\<exists>x \<in> set (cell_text_of imap c). \<not> isspace x"
proof -
  define ps where "ps = filter (\<lambda>p. extract_paragraph_with_images p imap \<noteq> []) (paragraphs c)"
  have eq: "cell_text_of imap c = join [10] (map (cell_line imap) ps)"
    by (simp add: cell_text_of_def ps_def)
  with assms have "ps \<noteq> []" by auto
  then obtain p qs where ps: "ps = p # qs" by (cases ps) auto
  then have "p \<in> set ps" by simp
  then have "extract_paragraph_with_images p imap \<noteq> []" by (simp add: ps_def)
  then obtain x where x: "x \<in> set (extract_paragraph_with_images p imap)" "\<not> isspace x"
    using extract_paragraph_nonspace by blast
  then have "x \<in> set (cell_line imap p)" by (simp add: cell_line_def)
  moreover have "set (cell_line imap p) \<subseteq> set (join [10] (map (cell_line imap) ps))"
    unfolding ps list.map by (rule set_join_first)
  ultimately show ?thesis using x(2) eq by auto
qed

lemma extract_paragraph_pPr:
  "extract_paragraph_with_images (p\<lparr>pPr := x\<rparr>) imap = extract_paragraph_with_images p imap"
  by (simp add: extract_paragraph_with_images_def)

lemma cell_title_eq:
  "extract_cell_title_with_images c imap =
     strip (join [32] (filter (\<lambda>s. s \<noteq> [])
       (map (\<lambda>p. extract_paragraph_with_images p imap) (paragraphs c))))"
  by (simp add: extract_cell_title_with_images_def fold_cell_title_step)

text \<open>The outcome of \<open>parse_docx_table_with_images\<close>, by the cases of its body.\<close>

lemma parse_not_loads:
  "\<not> loads d \<Longrightarrow> \<exists>m. parse_docx_table_with_images mem path d b table_index has_header = Inl (KeyError m)"
  using extract_images_not_loads [of d b]
  by (auto simp: parse_docx_table_with_images_def)

lemma parse_loads:
  assumes "loads d"
  shows "parse_docx_table_with_images mem path d b table_index has_header =
     (if int (length (tables d)) \<le> table_index
      then Inl (TableIndexError path (length (tables d)) table_index)
      else case py_index (tables d) table_index of
             Inl e \<Rightarrow> Inl e
           | Inr tbl \<Rightarrow>
               (case rows_loop mem (image_map (extract_run d b))
                       (drop (if has_header then 1 else 0) (rows tbl)) [] of
                  Inl e \<Rightarrow> Inl e
                | Inr cards \<Rightarrow>
                    Inr (cards, sorted_list_of_set (all_final_names (extract_run d b)))))"
  by (simp add: parse_docx_table_with_images_def extract_images_loads [OF assms]
      Document_loads [OF assms] Let_def split: sum.split)

lemma parse_found:
  assumes "py_index (tables d) table_index = Inr tbl"
    and "extract_images_from_docx d b = Inr (imap, imgs)"
  shows "parse_docx_table_with_images mem path d b table_index has_header =
     (case rows_loop mem imap (drop (if has_header then 1 else 0) (rows tbl)) [] of
        Inl e \<Rightarrow> Inl e
      | Inr cards \<Rightarrow> Inr (cards, imgs))"
proof -
  from assms(1) have lt: "\<not> int (length (tables d)) \<le> table_index"
    by (auto simp: py_index_def split: if_splits)
  from extract_images_Inr [OF assms(2)] have l: "loads d"
    and i: "imap = image_map (extract_run d b)"
    and f: "imgs = sorted_list_of_set (all_final_names (extract_run d b))"
    by simp_all
  show ?thesis
    unfolding parse_loads [OF l] i f using lt assms(1) by simp
qed

lemma field_names_distinct:
  "str ''type'' \<noteq> str ''path''" "str ''source_docx'' \<noteq> str ''path''"
  "str ''parsed_at'' \<noteq> str ''path''" "str ''type'' \<noteq> str ''source_docx''"
  "str ''type'' \<noteq> str ''parsed_at''" "str ''source_docx'' \<noteq> str ''parsed_at''"
  by (simp_all add: str_def)

lemma map_of_upsert:
  "map_of (upsert name ty src t idx) =
     (map_of idx)(name \<mapsto>
        AList.update (str ''parsed_at'') t
          (AList.update (str ''source_docx'') src
            (AList.update (str ''type'') ty (dict_get idx name [(str ''path'', name)]))))"
  by (simp add: upsert_def Let_def update_conv')

lemma upsert_entry_fields:
  "map_of (AList.update (str ''parsed_at'') t
          (AList.update (str ''source_docx'') src
            (AList.update (str ''type'') ty e))) fld =
     (if fld = str ''parsed_at'' then Some t
      else if fld = str ''source_docx'' then Some src
      else if fld = str ''type'' then Some ty
      else map_of e fld)"
  by (simp add: update_conv')

lemma apply_op_simp: "apply_op (n, ty, src, t) idx = upsert n ty src t idx"
  by (simp add: apply_op_def)

lemma main_step_ops:
  "main_step mem cd ti nh j idx = fold apply_op (job_ops mem cd ti nh j) idx"
proof (cases "parse_docx_table_with_images mem (path_join cd (filename j)) (document j)
             (fst (splitext (filename j))) ti (\<not> nh)")
  case (Inl e)
  then show ?thesis by (simp add: main_step_def job_ops_def Let_def)
next
  case (Inr r)
  obtain cards imgs where r: "r = (cards, imgs)" by (cases r)
  have "fold (\<lambda>img_name. upsert img_name (str ''image'') (filename j) (parsed_at j)) imgs acc =
        fold apply_op (map (\<lambda>img_name. (img_name, str ''image'', filename j, parsed_at j)) imgs) acc"
    for acc
    by (induction imgs arbitrary: acc) (simp_all add: apply_op_simp)
  then show ?thesis
    using Inr r
    by (simp add: main_step_def job_ops_def Let_def update_manifest_def apply_op_simp)
qed

lemma main_loop_ops:
  "main_loop mem cd ti nh jobs idx = fold apply_op (concat (map (job_ops mem cd ti nh) jobs)) idx"
  unfolding main_loop_def
  by (induction jobs arbitrary: idx) (simp_all add: main_step_ops)

lemma fold_apply_op_untouched:
  "name \<notin> fst ` set ops \<Longrightarrow> map_of (fold apply_op ops idx) name = map_of idx name"
proof (induction ops arbitrary: idx)
  case Nil
  show ?case by simp
next
  case (Cons op ops)
  obtain n ty src t where op: "op = (n, ty, src, t)" by (cases op)
  from Cons.prems have "n \<noteq> name" and "name \<notin> fst ` set ops" by (auto simp: op)
  then show ?case
    by (simp add: Cons.IH op apply_op_simp map_of_upsert)
qed

lemma fold_apply_op_touched:
  "name \<in> fst ` set ops \<Longrightarrow>
   \<exists>e' ty src t. (name, ty, src, t) \<in> set ops \<and>
      map_of (fold apply_op ops idx) name = Some e' \<and>
      map_of e' (str ''type'') = Some ty \<and>
      map_of e' (str ''source_docx'') = Some src \<and>
      map_of e' (str ''parsed_at'') = Some t \<and>
      (\<forall>fld. fld \<noteq> str ''type'' \<and> fld \<noteq> str ''source_docx'' \<and> fld \<noteq> str ''parsed_at'' \<longrightarrow>
         map_of e' fld = map_of (dict_get idx name [(str ''path'', name)]) fld)"
proof (induction ops rule: rev_induct)
  case Nil
  then show ?case by simp
next
  case (snoc op ops)
  obtain n ty src t where op: "op = (n, ty, src, t)" by (cases op)
  define idx1 where "idx1 = fold apply_op ops idx"
  have last: "fold apply_op (ops @ [op]) idx = upsert n ty src t idx1"
    by (simp add: idx1_def op apply_op_simp)
  show ?case
  proof (cases "n = name")
    case True
    define e1 where "e1 = dict_get idx1 name [(str ''path'', name)]"
    define e' where "e' = AList.update (str ''parsed_at'') t
          (AList.update (str ''source_docx'') src (AList.update (str ''type'') ty e1))"
    have m: "map_of (fold apply_op (ops @ [op]) idx) name = Some e'"
      unfolding last by (simp add: True map_of_upsert e'_def e1_def)
    have f: "\<And>fld. map_of e' fld =
       (if fld = str ''parsed_at'' then Some t
        else if fld = str ''source_docx'' then Some src
        else if fld = str ''type'' then Some ty
        else map_of e1 fld)"
      unfolding e'_def by (rule upsert_entry_fields)
    have keep: "\<And>fld. fld \<noteq> str ''type'' \<and> fld \<noteq> str ''source_docx'' \<and> fld \<noteq> str ''parsed_at'' \<Longrightarrow>
         map_of e1 fld = map_of (dict_get idx name [(str ''path'', name)]) fld"
    proof (cases "name \<in> fst ` set ops")
      case False
      then have "map_of idx1 name = map_of idx name"
        unfolding idx1_def by (rule fold_apply_op_untouched)
      then show "\<And>fld. map_of e1 fld = map_of (dict_get idx name [(str ''path'', name)]) fld"
        by (simp add: e1_def dict_get_def)
    next
      case t: True
      from snoc.IH [OF t] obtain e0 where
        "map_of idx1 name = Some e0"
        "\<forall>fld. fld \<noteq> str ''type'' \<and> fld \<noteq> str ''source_docx'' \<and> fld \<noteq> str ''parsed_at'' \<longrightarrow>
           map_of e0 fld = map_of (dict_get idx name [(str ''path'', name)]) fld"
        unfolding idx1_def by blast
      then show "\<And>fld. fld \<noteq> str ''type'' \<and> fld \<noteq> str ''source_docx'' \<and> fld \<noteq> str ''parsed_at'' \<Longrightarrow>
         map_of e1 fld = map_of (dict_get idx name [(str ''path'', name)]) fld"
        by (simp add: e1_def dict_get_def)
    qed
    have "(name, ty, src, t) \<in> set (ops @ [op])" by (simp add: op True)
    moreover have "map_of e' (str ''type'') = Some ty"
      "map_of e' (str ''source_docx'') = Some src" "map_of e' (str ''parsed_at'') = Some t"
      by (simp_all add: f field_names_distinct)
    moreover have "\<forall>fld. fld \<noteq> str ''type'' \<and> fld \<noteq> str ''source_docx'' \<and> fld \<noteq> str ''parsed_at'' \<longrightarrow>
         map_of e' fld = map_of (dict_get idx name [(str ''path'', name)]) fld"
      using keep by (simp add: f)
    ultimately show ?thesis using m by blast
  next
    case False
    with snoc.prems have "name \<in> fst ` set ops" by (auto simp: op)
    from snoc.IH [OF this] obtain e' ty' src' t' where
      "(name, ty', src', t') \<in> set ops"
      "map_of idx1 name = Some e'"
      "map_of e' (str ''type'') = Some ty'"
      "map_of e' (str ''source_docx'') = Some src'"
      "map_of e' (str ''parsed_at'') = Some t'"
      "\<forall>fld. fld \<noteq> str ''type'' \<and> fld \<noteq> str ''source_docx'' \<and> fld \<noteq> str ''parsed_at'' \<longrightarrow>
         map_of e' fld = map_of (dict_get idx name [(str ''path'', name)]) fld"
      unfolding idx1_def by blast
    moreover have "map_of (fold apply_op (ops @ [op]) idx) name = map_of idx1 name"
      unfolding last using False by (simp add: map_of_upsert)
    ultimately show ?thesis
      by (intro exI [of _ e'] exI [of _ ty'] exI [of _ src'] exI [of _ t']) simp
  qed
qed

lemma update_keeps_others:
  "(k', v') \<in> set al \<Longrightarrow> k' \<noteq> k \<Longrightarrow> (k', v') \<in> set (AList.update k v al)"
  by (induction al) auto

lemma set_update_cases:
  "(k', v') \<in> set (AList.update k v al) \<Longrightarrow> (k', v') = (k, v) \<or> (k', v') \<in> set al"
  by (induction al) (auto split: if_splits)

lemma fold_apply_op_keeps:
  "(name, e) \<in> set idx \<Longrightarrow> name \<notin> fst ` set ops \<Longrightarrow> (name, e) \<in> set (fold apply_op ops idx)"
proof (induction ops arbitrary: idx)
  case Nil
  then show ?case by simp
next
  case (Cons op ops)
  obtain n ty src t where op: "op = (n, ty, src, t)" by (cases op)
  from Cons.prems(2) have ne: "name \<noteq> n" and rest: "name \<notin> fst ` set ops" by (auto simp: op)
  have "(name, e) \<in> set (upsert n ty src t idx)"
    unfolding upsert_def Let_def using Cons.prems(1) ne by (rule update_keeps_others)
  then have "(name, e) \<in> set (fold apply_op ops (upsert n ty src t idx))"
    using rest by (rule Cons.IH)
  then show ?case by (simp add: op apply_op_simp)
qed

lemma index_wf_update:
  assumes "index_wf idx" and "map_of e (str ''path'') = Some k"
  shows "index_wf (AList.update k e idx)"
proof -
  have "distinct (map fst (AList.update k e idx))"
    using assms(1) by (simp add: index_wf_def distinct_update)
  moreover have "list_all (\<lambda>(k, e). map_of e (str ''path'') = Some k) (AList.update k e idx)"
    unfolding list_all_iff
  proof
    fix x
    assume x: "x \<in> set (AList.update k e idx)"
    obtain k' e' where xe: "x = (k', e')" by (cases x)
    from x have "(k', e') = (k, e) \<or> (k', e') \<in> set idx"
      unfolding xe by (rule set_update_cases)
    then show "case x of (k, e) \<Rightarrow> map_of e (str ''path'') = Some k"
      using assms by (auto simp: xe index_wf_def list_all_iff)
  qed
  ultimately show ?thesis by (simp add: index_wf_def)
qed

lemma index_wf_upsert:
  assumes "index_wf idx"
  shows "index_wf (upsert name ty src t idx)"
proof -
  define e0 where "e0 = dict_get idx name [(str ''path'', name)]"
  have "map_of e0 (str ''path'') = Some name"
  proof (cases "map_of idx name")
    case None
    then show ?thesis by (simp add: e0_def dict_get_def)
  next
    case (Some e)
    then have "(name, e) \<in> set idx" by (rule map_of_SomeD)
    with assms have "map_of e (str ''path'') = Some name"
      by (auto simp: index_wf_def list_all_iff)
    with Some show ?thesis by (simp add: e0_def dict_get_def)
  qed
  then have "map_of (AList.update (str ''parsed_at'') t
          (AList.update (str ''source_docx'') src (AList.update (str ''type'') ty e0)))
          (str ''path'') = Some name"
    using field_names_distinct by (simp add: upsert_entry_fields)
  with assms show ?thesis
    unfolding upsert_def Let_def e0_def by (rule index_wf_update)
qed

lemma index_wf_fold_apply_op: "index_wf idx \<Longrightarrow> index_wf (fold apply_op ops idx)"
proof (induction ops arbitrary: idx)
  case Nil
  then show ?case by simp
next
  case (Cons op ops)
  obtain n ty src t where op: "op = (n, ty, src, t)" by (cases op)
  have "index_wf (upsert n ty src t idx)" using Cons.prems by (rule index_wf_upsert)
  then have "index_wf (fold apply_op ops (upsert n ty src t idx))" by (rule Cons.IH)
  then show ?case by (simp add: op apply_op_simp)
qed

lemma index_wf_index_step: "index_wf idx \<Longrightarrow> index_wf (index_step e idx)"
  by (auto simp: index_step_def intro: index_wf_update split: option.splits)

lemma index_wf_fold_index_step: "index_wf idx \<Longrightarrow> index_wf (fold index_step es idx)"
  by (induction es arbitrary: idx) (simp_all add: index_wf_index_step)

lemma index_wf_load:
  "load_manifest fs json_load manifest_path = Inr (data, idx) \<Longrightarrow> index_wf idx"
proof -
  have e: "index_wf []" by (simp add: index_wf_def)
  assume "load_manifest fs json_load manifest_path = Inr (data, idx)"
  then show ?thesis
    using e index_wf_fold_index_step [OF e]
    by (auto simp: load_manifest_def split: option.splits sum.splits)
qed

lemma map_insort_key: "map f (insort_key f x xs) = insort (f x) (map f xs)"
  by (induction xs) simp_all

lemma map_sort_key: "map f (sort_key f xs) = sort (map f xs)"
  by (induction xs) (simp_all add: map_insort_key)

lemma index_wf_paths: "index_wf idx \<Longrightarrow> map entry_path (map snd idx) = map fst idx"
  by (auto simp: index_wf_def list_all_iff entry_path_def dict_get_def)

section \<open>Properties of extract\_images\_from\_docx\<close>

text \<open>
  Claim C1. The function returns exactly for the documents that python-docx can open. In
  the image map that it returns, two relationship identifiers of the dictionary
  \<open>relid_to_target\<close> whose normalized container paths are equal are mapped alike (to the
  same file name, or both to none); that map is the one the loop has built. Over the whole
  run every container path is opened at most once, and the files written are exactly one per
  opened path that the container has. An iteration that finds its path already resolved
  changes neither the counter, nor the opened paths, nor the written files, nor the table of
  resolved paths.
\<close>

theorem extract_images_dedup:
  "((\<exists>r. extract_images_from_docx d b = Inr r) \<longleftrightarrow> loads d) \<and>
   (\<forall>imap imgs rid1 t1 rid2 t2.
      extract_images_from_docx d b = Inr (imap, imgs) \<and>
      (rid1, t1) \<in> set (relid_to_target (rels d)) \<and>
      (rid2, t2) \<in> set (relid_to_target (rels d)) \<and>
      zip_path_of t1 = zip_path_of t2 \<longrightarrow>
      imap rid1 = imap rid2 \<and> imap = image_map (extract_run d b)) \<and>
   distinct (opened (extract_run d b)) \<and>
   written (extract_run d b) = copied_files d b (opened (extract_run d b)) \<and>
   (\<forall>s rid t r.
      target_to_final s (zip_path_of t) = Some r \<longrightarrow>
      counter (extract_step d b (rid, t) s) = counter s \<and>
      opened (extract_step d b (rid, t) s) = opened s \<and>
      written (extract_step d b (rid, t) s) = written s \<and>
      target_to_final (extract_step d b (rid, t) s) = target_to_final s)"
proof (intro conjI allI impI)
  show "(\<exists>r. extract_images_from_docx d b = Inr r) \<longleftrightarrow> loads d"
  proof (cases "loads d")
    case True
    then show ?thesis by (simp add: extract_images_loads)
  next
    case False
    from extract_images_not_loads [OF False, of b]
    obtain m where "extract_images_from_docx d b = Inl (KeyError m)" by blast
    with False show ?thesis by simp
  qed
next
  fix imap imgs rid1 t1 rid2 t2
  assume h: "extract_images_from_docx d b = Inr (imap, imgs) \<and>
      (rid1, t1) \<in> set (relid_to_target (rels d)) \<and>
      (rid2, t2) \<in> set (relid_to_target (rels d)) \<and> zip_path_of t1 = zip_path_of t2"
  then have i: "imap = image_map (extract_run d b)"
    using extract_images_Inr [of d b imap imgs] by simp
  from h show "imap rid1 = imap rid2"
    by (simp add: i extract_run_resolved [of rid1 t1] extract_run_resolved [of rid2 t2])
  from i show "imap = image_map (extract_run d b)" .
next
  show "distinct (opened (extract_run d b))"
    using extract_loop_core [of d b "relid_to_target (rels d)"]
    by (simp add: extract_run_def)
next
  show "written (extract_run d b) = copied_files d b (opened (extract_run d b))"
    using extract_loop_core [of d b "relid_to_target (rels d)"]
    by (simp add: extract_run_def extract_loop_written)
next
  fix s :: extract_state and rid t r
  assume "target_to_final s (zip_path_of t) = Some r"
  then have step: "extract_step d b (rid, t) s = record_name rid r s"
    by (rule extract_step_cached)
  show "counter (extract_step d b (rid, t) s) = counter s" by (simp add: step)
  show "opened (extract_step d b (rid, t) s) = opened s" by (simp add: step)
  show "written (extract_step d b (rid, t) s) = written s" by (simp add: step)
  show "target_to_final (extract_step d b (rid, t) s) = target_to_final s" by (simp add: step)
qed

theorem extract_images_dedup_witness:
  "loads example_doc \<and>
   extract_images_from_docx example_doc (str ''doc'') =
     Inr (image_map (extract_run example_doc (str ''doc'')),
          sorted_list_of_set (all_final_names (extract_run example_doc (str ''doc'')))) \<and>
   (str ''rId1'', str ''media/image1.png'') \<in> set (relid_to_target (rels example_doc)) \<and>
   (str ''rId3'', str ''media/image1.png'') \<in> set (relid_to_target (rels example_doc)) \<and>
   image_map (extract_run example_doc (str ''doc'')) (str ''rId1'') =
   image_map (extract_run example_doc (str ''doc'')) (str ''rId3'') \<and>
   image_map (extract_run example_doc (str ''doc'')) (str ''rId1'') = Some (str ''doc_Image01.png'') \<and>
   target_to_final
     (extract_loop example_doc (str ''doc'') [(str ''rId1'', str ''media/image1.png'')])
     (zip_path_of (str ''media/image1.png'')) = Some (Some (str ''doc_Image01.png'')) \<and>
   counter (extract_step example_doc (str ''doc'') (str ''rId3'', str ''media/image1.png'')
     (extract_loop example_doc (str ''doc'') [(str ''rId1'', str ''media/image1.png'')])) =
   counter (extract_loop example_doc (str ''doc'') [(str ''rId1'', str ''media/image1.png'')])"
proof -
  have l: "loads example_doc"
    by code_simp
  have h0: "extract_images_from_docx example_doc (str ''doc'') =
     Inr (image_map (extract_run example_doc (str ''doc'')),
          sorted_list_of_set (all_final_names (extract_run example_doc (str ''doc''))))"
    using l by (rule extract_images_loads)
  have h1: "(str ''rId1'', str ''media/image1.png'') \<in> set (relid_to_target (rels example_doc))"
    by code_simp
  have h2: "(str ''rId3'', str ''media/image1.png'') \<in> set (relid_to_target (rels example_doc))"
    by code_simp
  have v: "image_map (extract_run example_doc (str ''doc'')) (str ''rId1'') =
      Some (str ''doc_Image01.png'')"
    by code_simp
  have h4: "target_to_final
     (extract_loop example_doc (str ''doc'') [(str ''rId1'', str ''media/image1.png'')])
     (zip_path_of (str ''media/image1.png'')) = Some (Some (str ''doc_Image01.png''))"
    by code_simp
  note main = extract_images_dedup [of example_doc "str ''doc''"]
  from main h0 h1 h2 have c1: "image_map (extract_run example_doc (str ''doc'')) (str ''rId1'') =
   image_map (extract_run example_doc (str ''doc'')) (str ''rId3'')"
    by blast
  from main h4 have c2: "counter (extract_step example_doc (str ''doc'') (str ''rId3'', str ''media/image1.png'')
     (extract_loop example_doc (str ''doc'') [(str ''rId1'', str ''media/image1.png'')])) =
   counter (extract_loop example_doc (str ''doc'') [(str ''rId1'', str ''media/image1.png'')])"
    by blast
  from l h0 h1 h2 v h4 c1 c2 show ?thesis by blast
qed

text \<open>
  Claim C2, as amended. A file name in the image map is the document base name, followed by
  \<open>_Image\<close>, the number NN and the extension of the normalized container path
  (\<open>.bin\<close> when \<open>splitext\<close> finds none). NN denotes the 1-based position of the path
  among the distinct normalized paths in first-seen order (a path whose entry is missing
  keeps its position); it is written in decimal digits, padded with zeros to at least two
  digits, and has exactly two digits if and only if the number is below 100.
\<close>

theorem image_file_names:
  assumes "(rid, t) \<in> set (relid_to_target (rels d))"
    and "extract_images_from_docx d b = Inr (imap, imgs)"
    and "imap rid = Some f"
  shows "let ds = first_seen (zip_paths (relid_to_target (rels d)));
             zp = zip_path_of t;
             n = index_of zp ds + 1;
             ext = snd (splitext zp)
         in distinct ds \<and> n \<le> length ds \<and> ds ! (n - 1) = zp \<and>
            f = b @ str ''_Image'' @ format_02d n @ (if ext = [] then str ''.bin'' else ext) \<and>
            decimal_value (format_02d n) = n \<and> set (format_02d n) \<subseteq> {48..57} \<and>
            2 \<le> length (format_02d n) \<and> (length (format_02d n) = 2 \<longleftrightarrow> n < 100)"
proof -
  define ds where "ds = first_seen (zip_paths (relid_to_target (rels d)))"
  define zp where "zp = zip_path_of t"
  define n where "n = index_of zp ds + 1"
  have mem: "zp \<in> set ds"
    unfolding zp_def ds_def using assms(1) by (simp add: zip_path_mem)
  have i: "imap = image_map (extract_run d b)"
    using extract_images_Inr [OF assms(2)] by simp
  have "resolved_name d b ds zp = Some f"
    using assms(3) extract_run_resolved [OF assms(1), of b]
    by (simp add: i ds_def zp_def)
  then have f: "f = final_name_of b n zp"
    by (auto simp: resolved_name_def n_def split: option.splits)
  have "distinct ds" by (simp add: ds_def)
  moreover have "n \<le> length ds" using index_of_less [OF mem] by (simp add: n_def)
  moreover have "ds ! (n - 1) = zp" using nth_index_of [OF mem] by (simp add: n_def)
  moreover have "f = b @ str ''_Image'' @ format_02d n @
      (if snd (splitext zp) = [] then str ''.bin'' else snd (splitext zp))"
    by (simp add: f final_name_of_def Let_def)
  ultimately show ?thesis
    unfolding Let_def ds_def [symmetric] zp_def [symmetric] n_def [symmetric]
    using format_02d_value [of n] format_02d_digits [of n] length_format_02d [of n]
    by blast
qed

theorem image_file_names_witness:
  "(str ''rId5'', str ''media/noext'') \<in> set (relid_to_target (rels example_doc)) \<and>
   extract_images_from_docx example_doc (str ''doc'') =
     Inr (image_map (extract_run example_doc (str ''doc'')),
          sorted_list_of_set (all_final_names (extract_run example_doc (str ''doc'')))) \<and>
   image_map (extract_run example_doc (str ''doc'')) (str ''rId5'') =
     Some (str ''doc_Image03.bin'') \<and>
   index_of (zip_path_of (str ''media/noext''))
     (first_seen (zip_paths (relid_to_target (rels example_doc)))) + 1 = 3 \<and>
   str ''doc_Image03.bin'' = str ''doc'' @ str ''_Image'' @ format_02d 3 @ str ''.bin'' \<and>
   length (format_02d 3) = 2"
proof -
  have l: "loads example_doc"
    by code_simp
  have h0: "extract_images_from_docx example_doc (str ''doc'') =
     Inr (image_map (extract_run example_doc (str ''doc'')),
          sorted_list_of_set (all_final_names (extract_run example_doc (str ''doc''))))"
    using l by (rule extract_images_loads)
  have h1: "(str ''rId5'', str ''media/noext'') \<in> set (relid_to_target (rels example_doc))"
    by code_simp
  have h2: "image_map (extract_run example_doc (str ''doc'')) (str ''rId5'') =
     Some (str ''doc_Image03.bin'')"
    by code_simp
  have n: "index_of (zip_path_of (str ''media/noext''))
     (first_seen (zip_paths (relid_to_target (rels example_doc)))) + 1 = 3"
    by code_simp
  have e: "snd (splitext (zip_path_of (str ''media/noext''))) = []"
    by code_simp
  from image_file_names [OF h1 h0 h2] have
    "str ''doc_Image03.bin'' = str ''doc'' @ str ''_Image'' @ format_02d 3 @ str ''.bin'' \<and>
     (length (format_02d 3) = 2 \<longleftrightarrow> (3::nat) < 100)"
    unfolding Let_def n e by simp
  with h0 h1 h2 n show ?thesis by simp
qed

text \<open>
  Claim C2 as stated fails for the hundredth distinct image of a document: the function
  returns the map of the loop, in which the number of that image has three digits.
\<close>

theorem hundredth_image_counterexample:
  "extract_images_from_docx hundred_images (str ''doc'') =
     Inr (image_map (extract_run hundred_images (str ''doc'')),
          sorted_list_of_set (all_final_names (extract_run hundred_images (str ''doc'')))) \<and>
   image_map (extract_run hundred_images (str ''doc'')) (str ''rId100'') =
     Some (str ''doc_Image100.png'')"
proof -
  let ?g = "\<lambda>i. str ''word/media/image'' @ decimal i @ str ''.png''"
  let ?ds = "map ?g [1 ..< 101]"
  have mem: "(str ''rId'' @ decimal 100, str ''media/image'' @ decimal 100 @ str ''.png'')
      \<in> set (relid_to_target (rels hundred_images))"
    unfolding hundred_items by force
  have ds: "first_seen (zip_paths (relid_to_target (rels hundred_images))) = ?ds"
    unfolding hundred_paths by (rule first_seen_distinct) (rule hundred_distinct)
  have "index_of (?ds ! 99) ?ds = 99"
    by (rule index_of_nth [OF hundred_distinct]) simp
  then have idx: "index_of (?g 100) ?ds = 99" by simp
  have "image_map (extract_run hundred_images (str ''doc'')) (str ''rId'' @ decimal 100) =
      resolved_name hundred_images (str ''doc'') ?ds (?g 100)"
    using extract_run_resolved [OF mem, of "str ''doc''"]
    by (simp only: ds zip_path_of_media)
  also have "\<dots> = Some (final_name_of (str ''doc'') 100 (?g 100))"
    unfolding resolved_name_def hundred_entry idx by simp
  finally have "image_map (extract_run hundred_images (str ''doc'')) (str ''rId'' @ decimal 100) =
      Some (final_name_of (str ''doc'') 100 (?g 100))" .
  moreover have "str ''rId'' @ decimal 100 = str ''rId100''" by code_simp
  moreover have "final_name_of (str ''doc'') 100 (?g 100) = str ''doc_Image100.png''" by code_simp
  ultimately have "image_map (extract_run hundred_images (str ''doc'')) (str ''rId100'') =
     Some (str ''doc_Image100.png'')"
    by simp
  moreover have "extract_images_from_docx hundred_images (str ''doc'') =
     Inr (image_map (extract_run hundred_images (str ''doc'')),
          sorted_list_of_set (all_final_names (extract_run hundred_images (str ''doc''))))"
    using hundred_loads by (rule extract_images_loads)
  ultimately show ?thesis by simp
qed

text \<open>
  Claim C4, at a document whose image relationship is internal and points to a part that the
  container lacks. Opening the document raises \<open>KeyError\<close> for the missing part before
  the loop over the relationships, whose handler would skip the image, is reached: the
  function raises instead of returning an image map without that relationship, and
  \<open>parse_docx_table_with_images\<close> raises with it, so that \<open>main\<close> skips the whole
  document and leaves the index as it is.
\<close>

theorem dangling_image_raises:
  "(str ''rId1'', str ''media/gone.png'') \<in> set (relid_to_target (rels dangling_doc)) \<and>
   zip_entries dangling_doc (zip_path_of (str ''media/gone.png'')) = None \<and>
   extract_images_from_docx dangling_doc (str ''doc'') =
     Inl (KeyError (str ''word/media/gone.png'')) \<and>
   parse_docx_table_with_images 1000 (str ''in/doc.docx'') dangling_doc (str ''doc'') 0 True =
     Inl (KeyError (str ''word/media/gone.png'')) \<and>
   main_step 1000 (str ''in'') 0 False
     \<lparr>filename = str ''doc.docx'', document = dangling_doc,
      parsed_at = str ''2024-05-01T10:00:00+00:00''\<rparr> old_index = old_index"
proof -
  have m: "(str ''rId1'', str ''media/gone.png'') \<in> set (relid_to_target (rels dangling_doc))"
    by code_simp
  have z: "zip_entries dangling_doc (zip_path_of (str ''media/gone.png'')) = None"
    by code_simp
  have e: "extract_images_from_docx dangling_doc (str ''doc'') =
     Inl (KeyError (str ''word/media/gone.png''))"
    by (simp add: extract_images_from_docx_def Document_def dangling_doc_def membername_def
        str_def)
  have p: "parse_docx_table_with_images mem path dangling_doc (str ''doc'') i h =
     Inl (KeyError (str ''word/media/gone.png''))" for mem path i h
    by (simp add: parse_docx_table_with_images_def e)
  have b: "fst (splitext (str ''doc.docx'')) = str ''doc''"
    by code_simp
  have "main_step 1000 (str ''in'') 0 False
     \<lparr>filename = str ''doc.docx'', document = dangling_doc,
      parsed_at = str ''2024-05-01T10:00:00+00:00''\<rparr> old_index = old_index"
    by (simp add: main_step_def Let_def b p)
  with m z e p show ?thesis by simp
qed

text \<open>
  Claim C10. An iteration on a path seen for the first time whose container entry is missing
  increments the counter, records the attempt and caches the failure, and nothing else. An
  iteration on a path whose failure is cached leaves the whole state as it is: no new attempt,
  no number, no entry in the image map. The number is consumed: a distinct image extracted
  next is named with the counter after the increment. Over the whole run the counter has
  advanced once for every distinct path, present or not, and a relationship with a missing
  target has no entry in the image map of the loop, which is the map that the function
  returns when it returns.
\<close>

theorem missing_entry_consumes_number:
  "(target_to_final s (zip_path_of t) = None \<and> zip_entries d (zip_path_of t) = None \<longrightarrow>
      extract_step d b (rid, t) s =
        s\<lparr>counter := counter s + 1, opened := opened s @ [zip_path_of t],
          target_to_final := (target_to_final s)(zip_path_of t \<mapsto> None)\<rparr>) \<and>
   (target_to_final s (zip_path_of t) = Some None \<longrightarrow> extract_step d b (rid, t) s = s) \<and>
   (target_to_final s (zip_path_of t) = None \<and> zip_entries d (zip_path_of t) = None \<and>
    target_to_final s (zip_path_of t') = None \<and> zip_path_of t' \<noteq> zip_path_of t \<and>
    zip_entries d (zip_path_of t') = Some c \<longrightarrow>
      image_map (extract_step d b (rid', t') (extract_step d b (rid, t) s)) rid' =
        Some (final_name_of b (counter s + 1) (zip_path_of t'))) \<and>
   counter (extract_run d b) = length (first_seen (zip_paths (relid_to_target (rels d)))) + 1 \<and>
   ((rid, t) \<in> set (relid_to_target (rels d)) \<and> zip_entries d (zip_path_of t) = None \<longrightarrow>
      image_map (extract_run d b) rid = None \<and>
      (\<forall>imap imgs. extract_images_from_docx d b = Inr (imap, imgs) \<longrightarrow> imap rid = None) \<and>
      target_to_final (extract_run d b) (zip_path_of t) = Some None)"
proof (intro conjI impI allI)
  assume "target_to_final s (zip_path_of t) = None \<and> zip_entries d (zip_path_of t) = None"
  then show "extract_step d b (rid, t) s =
        s\<lparr>counter := counter s + 1, opened := opened s @ [zip_path_of t],
          target_to_final := (target_to_final s)(zip_path_of t \<mapsto> None)\<rparr>"
    by (simp add: extract_step_missing)
next
  assume "target_to_final s (zip_path_of t) = Some None"
  then show "extract_step d b (rid, t) s = s"
    by (simp add: extract_step_cached record_name_def)
next
  assume h: "target_to_final s (zip_path_of t) = None \<and> zip_entries d (zip_path_of t) = None \<and>
    target_to_final s (zip_path_of t') = None \<and> zip_path_of t' \<noteq> zip_path_of t \<and>
    zip_entries d (zip_path_of t') = Some c"
  define s1 where "s1 = extract_step d b (rid, t) s"
  from h have s1: "s1 = s\<lparr>counter := counter s + 1, opened := opened s @ [zip_path_of t],
          target_to_final := (target_to_final s)(zip_path_of t \<mapsto> None)\<rparr>"
    by (simp add: s1_def extract_step_missing)
  then have "target_to_final s1 (zip_path_of t') = None" and "counter s1 = counter s + 1"
    using h by simp_all
  with h have "image_map (extract_step d b (rid', t') s1) rid' =
      Some (final_name_of b (counter s + 1) (zip_path_of t'))"
    by (simp add: extract_step_copied)
  then show "image_map (extract_step d b (rid', t') (extract_step d b (rid, t) s)) rid' =
        Some (final_name_of b (counter s + 1) (zip_path_of t'))"
    by (simp add: s1_def)
next
  show "counter (extract_run d b) = length (first_seen (zip_paths (relid_to_target (rels d)))) + 1"
    using extract_loop_core [of d b "relid_to_target (rels d)"] by (simp add: extract_run_def)
next
  assume h: "(rid, t) \<in> set (relid_to_target (rels d)) \<and> zip_entries d (zip_path_of t) = None"
  then show none: "image_map (extract_run d b) rid = None"
    by (blast intro: extract_run_missing)
  show "imap rid = None" if "extract_images_from_docx d b = Inr (imap, imgs)" for imap imgs
    using extract_images_Inr [OF that] none by simp
  from h have "zip_path_of t \<in> set (zip_paths (relid_to_target (rels d)))"
    by (blast intro: zip_path_mem)
  with h show "target_to_final (extract_run d b) (zip_path_of t) = Some None"
    using extract_loop_core [of d b "relid_to_target (rels d)"]
    by (simp add: extract_run_def resolved_name_def)
qed

theorem missing_entry_consumes_number_witness:
  "target_to_final extract_init (zip_path_of (str ''https://example.org/gone.jpeg'')) = None \<and>
   zip_entries example_doc (zip_path_of (str ''https://example.org/gone.jpeg'')) = None \<and>
   after_gone =
     extract_init\<lparr>counter := counter extract_init + 1,
       opened := opened extract_init @ [zip_path_of (str ''https://example.org/gone.jpeg'')],
       target_to_final := (target_to_final extract_init)(zip_path_of (str ''https://example.org/gone.jpeg'') \<mapsto> None)\<rparr> \<and>
   target_to_final after_gone (zip_path_of (str ''https://example.org/gone.jpeg'')) = Some None \<and>
   extract_step example_doc (str ''doc'') (str ''rId9'', str ''https://example.org/gone.jpeg'') after_gone = after_gone \<and>
   image_map (extract_step example_doc (str ''doc'') (str ''rId5'', str ''media/noext'') after_gone)
     (str ''rId5'') = Some (str ''doc_Image02.bin'') \<and>
   (str ''rId4'', str ''https://example.org/gone.jpeg'') \<in> set (relid_to_target (rels example_doc)) \<and>
   image_map (extract_run example_doc (str ''doc'')) (str ''rId4'') = None"
proof -
  let ?t = "str ''https://example.org/gone.jpeg''"
  have h1: "target_to_final extract_init (zip_path_of ?t) = None \<and>
      zip_entries example_doc (zip_path_of ?t) = None"
    by code_simp
  have h3: "target_to_final extract_init (zip_path_of ?t) = None \<and>
      zip_entries example_doc (zip_path_of ?t) = None \<and>
      target_to_final extract_init (zip_path_of (str ''media/noext'')) = None \<and>
      zip_path_of (str ''media/noext'') \<noteq> zip_path_of ?t \<and>
      zip_entries example_doc (zip_path_of (str ''media/noext'')) = Some ''RAW''"
    by code_simp
  have h5: "(str ''rId4'', ?t) \<in> set (relid_to_target (rels example_doc))"
    by code_simp
  have nm: "final_name_of (str ''doc'') (counter extract_init + 1) (zip_path_of (str ''media/noext''))
      = str ''doc_Image02.bin''"
    by code_simp
  note a = missing_entry_consumes_number [of extract_init ?t example_doc "str ''doc''"
      "str ''rId4''" "str ''media/noext''" "''RAW''" "str ''rId5''"]
  from a h1 have c1: "after_gone =
     extract_init\<lparr>counter := counter extract_init + 1,
       opened := opened extract_init @ [zip_path_of ?t],
       target_to_final := (target_to_final extract_init)(zip_path_of ?t \<mapsto> None)\<rparr>"
    unfolding after_gone_def by blast
  have h2: "target_to_final after_gone (zip_path_of ?t) = Some None"
    by (subst c1) simp
  from missing_entry_consumes_number [of after_gone ?t example_doc "str ''doc''" "str ''rId9''"] h2
  have c2: "extract_step example_doc (str ''doc'') (str ''rId9'', ?t) after_gone = after_gone"
    by blast
  from a h3 have c3: "image_map (extract_step example_doc (str ''doc'') (str ''rId5'', str ''media/noext'') after_gone)
     (str ''rId5'') = Some (str ''doc_Image02.bin'')"
    unfolding after_gone_def nm [symmetric] by blast
  from a h1 h5 have c5: "image_map (extract_run example_doc (str ''doc'')) (str ''rId4'') = None"
    by blast
  from h1 c1 h2 c2 c3 h5 c5 show ?thesis by blast
qed

section \<open>Properties of the renderers\<close>

text \<open>
  Claim C3. The rendering of a paragraph is the concatenation, in the order of the runs and
  without separator, of what each run contributes, stripped of leading and trailing white
  space: a run without drawings contributes its text, a run with drawings contributes the
  placeholders of those of its drawings whose relationship identifier is in the image map and
  nothing of its text. A rendering that is not empty neither begins nor ends with white space.
\<close>

theorem paragraph_rendering:
  "extract_paragraph_with_images p imap =
     strip (concat (map (\<lambda>r. if drawings r = [] then run_text r
                             else concat (map placeholder (resolved_images imap (drawings r))))
                        (runs p))) \<and>
   (extract_paragraph_with_images p imap \<noteq> [] \<longrightarrow>
      \<not> isspace (hd (extract_paragraph_with_images p imap)) \<and>
      \<not> isspace (last (extract_paragraph_with_images p imap)))"
proof (intro conjI impI)
  show "extract_paragraph_with_images p imap =
     strip (concat (map (\<lambda>r. if drawings r = [] then run_text r
                             else concat (map placeholder (resolved_images imap (drawings r))))
                        (runs p)))"
    by (rule extract_paragraph_eq)
next
  assume "extract_paragraph_with_images p imap \<noteq> []"
  then show "\<not> isspace (hd (extract_paragraph_with_images p imap))"
    unfolding extract_paragraph_with_images_def by (rule strip_hd)
next
  assume "extract_paragraph_with_images p imap \<noteq> []"
  then show "\<not> isspace (last (extract_paragraph_with_images p imap))"
    unfolding extract_paragraph_with_images_def by (rule strip_last)
qed

theorem paragraph_rendering_witness:
  "extract_paragraph_with_images example_par example_map = str ''see [[image:doc_Image01.png]] end'' \<and>
   extract_paragraph_with_images example_par example_map \<noteq> [] \<and>
   \<not> isspace (hd (extract_paragraph_with_images example_par example_map)) \<and>
   \<not> isspace (last (extract_paragraph_with_images example_par example_map))"
proof -
  have v: "extract_paragraph_with_images example_par example_map =
      str ''see [[image:doc_Image01.png]] end''"
    by code_simp
  have "str ''see [[image:doc_Image01.png]] end'' \<noteq> []"
    by (simp add: str_def)
  with v have h: "extract_paragraph_with_images example_par example_map \<noteq> []"
    by simp
  from paragraph_rendering [of example_par example_map] h
  have "\<not> isspace (hd (extract_paragraph_with_images example_par example_map)) \<and>
      \<not> isspace (last (extract_paragraph_with_images example_par example_map))"
    by blast
  with v h show ?thesis by blast
qed

text \<open>
  Claim C5, amended. The level of a paragraph is 0 when the paragraph properties, the
  numbering properties or the level element are absent or when reading the level raises, and
  the value read otherwise, of any size and sign. When every paragraph with numbering
  properties and a rendering that is not empty has a level that fits the index type of the
  interpreter and that many tabs can be allocated, the list-preserving rendering of a cell
  is the newline-joined list of the lines of the paragraphs whose rendering is not empty, in
  order: for a paragraph with numbering properties the line is as many tabs as its level,
  none for a negative level, then the bullet, a space and the rendering; otherwise the
  rendering itself. When some such paragraph has a level that does not fit, the function
  raises \<open>OverflowError\<close> or \<open>MemoryError\<close>.
\<close>

theorem cell_text_rendering:
  "(cell_renders mem imap c \<longrightarrow>
      extract_cell_text_preserve_lists_and_images mem c imap =
        Inr (join [10]
          (map (\<lambda>p. if is_list_paragraph p
                     then replicate (nat (max 0 (get_list_level p))) 9 @ [8226, 32] @
                          extract_paragraph_with_images p imap
                     else extract_paragraph_with_images p imap)
               (filter (\<lambda>p. extract_paragraph_with_images p imap \<noteq> []) (paragraphs c))))) \<and>
   (\<not> cell_renders mem imap c \<longrightarrow>
      extract_cell_text_preserve_lists_and_images mem c imap = Inl OverflowError \<or>
      extract_cell_text_preserve_lists_and_images mem c imap = Inl MemoryError) \<and>
   (cell_renders mem imap c \<longleftrightarrow>
      (\<forall>q \<in> set (paragraphs c).
          extract_paragraph_with_images q imap \<noteq> [] \<and> is_list_paragraph q \<longrightarrow>
          - 9223372036854775808 \<le> get_list_level q \<and> get_list_level q \<le> 9223372036854775807 \<and>
          get_list_level q \<le> int mem)) \<and>
   (is_list_paragraph p \<longleftrightarrow> (\<exists>pp np. pPr p = Some pp \<and> numPr pp = Some np)) \<and>
   (pPr p = None \<longrightarrow> get_list_level p = 0) \<and>
   (\<forall>pp. pPr p = Some pp \<and> numPr pp = None \<longrightarrow> get_list_level p = 0) \<and>
   (\<forall>pp np. pPr p = Some pp \<and> numPr pp = Some np \<and> ilvl np = None \<longrightarrow> get_list_level p = 0) \<and>
   (\<forall>pp np lv e. pPr p = Some pp \<and> numPr pp = Some np \<and> ilvl np = Some lv \<and> ilvl_val lv = Inl e
      \<longrightarrow> get_list_level p = 0) \<and>
   (\<forall>pp np lv n. pPr p = Some pp \<and> numPr pp = Some np \<and> ilvl np = Some lv \<and> ilvl_val lv = Inr n
      \<longrightarrow> get_list_level p = n)"
proof -
  have ok: "cell_renders mem imap c \<longrightarrow>
      extract_cell_text_preserve_lists_and_images mem c imap =
        Inr (join [10]
          (map (\<lambda>p. if is_list_paragraph p
                     then replicate (nat (max 0 (get_list_level p))) 9 @ [8226, 32] @
                          extract_paragraph_with_images p imap
                     else extract_paragraph_with_images p imap)
               (filter (\<lambda>p. extract_paragraph_with_images p imap \<noteq> []) (paragraphs c))))"
    using extract_cell_text_ok [of mem imap c]
    by (simp only: cell_text_of_def cell_line_def [abs_def]) blast
  have fail: "\<not> cell_renders mem imap c \<longrightarrow>
      extract_cell_text_preserve_lists_and_images mem c imap = Inl OverflowError \<or>
      extract_cell_text_preserve_lists_and_images mem c imap = Inl MemoryError"
    using extract_cell_text_fail [of mem imap c] by blast
  have iff: "cell_renders mem imap c \<longleftrightarrow>
      (\<forall>q \<in> set (paragraphs c).
          extract_paragraph_with_images q imap \<noteq> [] \<and> is_list_paragraph q \<longrightarrow>
          - 9223372036854775808 \<le> get_list_level q \<and> get_list_level q \<le> 9223372036854775807 \<and>
          get_list_level q \<le> int mem)"
    unfolding cell_renders_def list_all_iff level_fits_def sys_maxsize_def by auto
  have lp: "is_list_paragraph p \<longleftrightarrow> (\<exists>pp np. pPr p = Some pp \<and> numPr pp = Some np)"
    by (auto simp: is_list_paragraph_def split: option.splits)
  from ok fail iff lp get_list_level_cases [of p] show ?thesis by blast
qed

theorem cell_text_rendering_witness:
  "cell_renders 1000 Map.empty example_cell \<and>
   extract_cell_text_preserve_lists_and_images 1000 example_cell Map.empty =
     Inr ([9, 8226, 32] @ str ''item1'' @ [10] @ [8226, 32] @ str ''item2'' @ [10] @ str ''plain'') \<and>
   \<not> cell_renders 1000 Map.empty huge_level_cell \<and>
   (extract_cell_text_preserve_lists_and_images 1000 huge_level_cell Map.empty = Inl OverflowError \<or>
    extract_cell_text_preserve_lists_and_images 1000 huge_level_cell Map.empty = Inl MemoryError) \<and>
   pPr (plain_par [text_run (str ''plain'')]) = None \<and>
   get_list_level (plain_par [text_run (str ''plain'')]) = 0 \<and>
   ilvl_val \<lparr>ilvl_val = Inl ValueError\<rparr> = Inl ValueError \<and>
   get_list_level (list_par (Inl ValueError) [text_run (str ''item2'')]) = 0 \<and>
   get_list_level (list_par (Inr 1) [text_run (str ''item1'')]) = 1"
proof -
  have r: "cell_renders 1000 Map.empty example_cell"
    by code_simp
  have nr: "\<not> cell_renders 1000 Map.empty huge_level_cell"
    by code_simp
  have v: "join [10]
       (map (\<lambda>p. if is_list_paragraph p
                  then replicate (nat (max 0 (get_list_level p))) 9 @ [8226, 32] @
                       extract_paragraph_with_images p Map.empty
                  else extract_paragraph_with_images p Map.empty)
            (filter (\<lambda>p. extract_paragraph_with_images p Map.empty \<noteq> []) (paragraphs example_cell)))
     = [9, 8226, 32] @ str ''item1'' @ [10] @ [8226, 32] @ str ''item2'' @ [10] @ str ''plain''"
    by code_simp
  have h1: "pPr (plain_par [text_run (str ''plain'')]) = None"
    by (simp add: plain_par_def)
  have h2: "pPr (list_par (Inl ValueError) [text_run (str ''item2'')]) =
        Some \<lparr>numPr = Some \<lparr>ilvl = Some \<lparr>ilvl_val = Inl ValueError\<rparr>\<rparr>\<rparr> \<and>
      numPr \<lparr>numPr = Some \<lparr>ilvl = Some \<lparr>ilvl_val = Inl ValueError\<rparr>\<rparr>\<rparr> =
        Some \<lparr>ilvl = Some \<lparr>ilvl_val = Inl ValueError\<rparr>\<rparr> \<and>
      ilvl \<lparr>ilvl = Some \<lparr>ilvl_val = Inl ValueError\<rparr>\<rparr> = Some \<lparr>ilvl_val = Inl ValueError\<rparr> \<and>
      ilvl_val \<lparr>ilvl_val = Inl ValueError\<rparr> = Inl ValueError"
    by (simp add: list_par_def)
  have h3: "pPr (list_par (Inr 1) [text_run (str ''item1'')]) =
        Some \<lparr>numPr = Some \<lparr>ilvl = Some \<lparr>ilvl_val = Inr 1\<rparr>\<rparr>\<rparr> \<and>
      numPr \<lparr>numPr = Some \<lparr>ilvl = Some \<lparr>ilvl_val = Inr 1\<rparr>\<rparr>\<rparr> =
        Some \<lparr>ilvl = Some \<lparr>ilvl_val = Inr 1\<rparr>\<rparr> \<and>
      ilvl \<lparr>ilvl = Some \<lparr>ilvl_val = Inr 1\<rparr>\<rparr> = Some \<lparr>ilvl_val = Inr 1\<rparr> \<and>
      ilvl_val \<lparr>ilvl_val = Inr 1\<rparr> = Inr 1"
    by (simp add: list_par_def)
  from cell_text_rendering [of 1000 Map.empty example_cell "plain_par [text_run (str ''plain'')]"]
    r v h1
  have c1: "extract_cell_text_preserve_lists_and_images 1000 example_cell Map.empty =
     Inr ([9, 8226, 32] @ str ''item1'' @ [10] @ [8226, 32] @ str ''item2'' @ [10] @ str ''plain'') \<and>
     get_list_level (plain_par [text_run (str ''plain'')]) = 0"
    by simp
  from cell_text_rendering [of 1000 Map.empty huge_level_cell
      "list_par (Inl ValueError) [text_run (str ''item2'')]"] nr h2
  have c2: "(extract_cell_text_preserve_lists_and_images 1000 huge_level_cell Map.empty = Inl OverflowError \<or>
      extract_cell_text_preserve_lists_and_images 1000 huge_level_cell Map.empty = Inl MemoryError) \<and>
      get_list_level (list_par (Inl ValueError) [text_run (str ''item2'')]) = 0"
    by blast
  from cell_text_rendering [of 1000 Map.empty example_cell
      "list_par (Inr 1) [text_run (str ''item1'')]"] h3
  have c3: "get_list_level (list_par (Inr 1) [text_run (str ''item1'')]) = 1"
    by blast
  from r nr c1 c2 c3 h1 h2 show ?thesis by blast
qed

text \<open>
  Claim C5 as stated fails for a cell with one list paragraph whose level element reads
  100000000000000000000: the level is that number, and the function raises
  \<open>OverflowError\<close> instead of emitting that many tabs. With level -1 in its place the
  function emits no tab.
\<close>

theorem huge_level_counterexample:
  "extract_cell_text_preserve_lists_and_images 1000 huge_level_cell Map.empty = Inl OverflowError \<and>
   get_list_level (list_par (Inr 100000000000000000000) [text_run (str ''item'')]) =
     100000000000000000000 \<and>
   extract_cell_text_preserve_lists_and_images 1000
     \<lparr>paragraphs = [list_par (Inr (- 1)) [text_run (str ''item'')]]\<rparr> Map.empty =
     Inr ([8226, 32] @ str ''item'')"
  by code_simp

section \<open>Properties of parse\_docx\_table\_with\_images\<close>

text \<open>
  Claim C6. When the table at the given index exists, the images of the document have been
  extracted and every second cell from the start row on renders, the function returns one
  card for each row of that table, from row 1 on with a header row and from row 0 on
  without, that has at least two cells and whose title or detail is not empty, in the order
  of the rows: the title is cell 0 in title mode, the detail is cell 1 in list-preserving
  mode, which is what \<open>extract_cell_text_preserve_lists_and_images\<close> returns for a cell
  that renders. When a second cell does not render, the error of its rendering is the
  result. Title mode joins the renderings that are not empty with one space and strips the
  result, whatever the paragraph properties are. Title or detail is not empty if and only
  if one of them is not empty after stripping.
\<close>

theorem table_rows_to_cards:
  "(py_index (tables d) table_index = Inr tbl \<and>
    extract_images_from_docx d b = Inr (imap, imgs) \<and>
    table_renders mem imap has_header tbl \<longrightarrow>
      parse_docx_table_with_images mem path d b table_index has_header =
        Inr (map (\<lambda>r. \<lparr>title = extract_cell_title_with_images (cells r ! 0) imap,
                       detail = cell_text_of imap (cells r ! 1)\<rparr>)
               (filter (\<lambda>r. extract_cell_title_with_images (cells r ! 0) imap \<noteq> [] \<or>
                            cell_text_of imap (cells r ! 1) \<noteq> [])
                  (filter (\<lambda>r. 2 \<le> length (cells r))
                     (drop (if has_header then 1 else 0) (rows tbl)))),
             imgs)) \<and>
   (py_index (tables d) table_index = Inr tbl \<and>
    extract_images_from_docx d b = Inr (imap, imgs) \<and>
    \<not> table_renders mem imap has_header tbl \<longrightarrow>
      parse_docx_table_with_images mem path d b table_index has_header = Inl OverflowError \<or>
      parse_docx_table_with_images mem path d b table_index has_header = Inl MemoryError) \<and>
   (table_renders mem imap has_header tbl \<longleftrightarrow>
      (\<forall>r \<in> set (drop (if has_header then 1 else 0) (rows tbl)).
          2 \<le> length (cells r) \<longrightarrow> cell_renders mem imap (cells r ! 1))) \<and>
   (cell_renders mem imap c' \<longrightarrow>
      extract_cell_text_preserve_lists_and_images mem c' imap = Inr (cell_text_of imap c')) \<and>
   extract_cell_title_with_images c imap =
     strip (join [32] (filter (\<lambda>s. s \<noteq> [])
       (map (\<lambda>p. extract_paragraph_with_images p imap) (paragraphs c)))) \<and>
   extract_cell_title_with_images (c\<lparr>paragraphs := map (\<lambda>p. p\<lparr>pPr := f p\<rparr>) (paragraphs c)\<rparr>) imap =
     extract_cell_title_with_images c imap \<and>
   ((extract_cell_title_with_images c imap \<noteq> [] \<or> cell_text_of imap c' \<noteq> []) \<longleftrightarrow>
    (strip (extract_cell_title_with_images c imap) \<noteq> [] \<or> strip (cell_text_of imap c') \<noteq> []))"
proof (intro conjI impI)
  assume h: "py_index (tables d) table_index = Inr tbl \<and>
    extract_images_from_docx d b = Inr (imap, imgs) \<and>
    table_renders mem imap has_header tbl"
  then have p: "py_index (tables d) table_index = Inr tbl"
    and e: "extract_images_from_docx d b = Inr (imap, imgs)"
    and t: "list_all (\<lambda>r. length (cells r) < 2 \<or> cell_renders mem imap (cells r ! 1))
       (drop (if has_header then 1 else 0) (rows tbl))"
    by (simp_all add: table_renders_def)
  show "parse_docx_table_with_images mem path d b table_index has_header =
        Inr (map (\<lambda>r. \<lparr>title = extract_cell_title_with_images (cells r ! 0) imap,
                       detail = cell_text_of imap (cells r ! 1)\<rparr>)
               (filter (\<lambda>r. extract_cell_title_with_images (cells r ! 0) imap \<noteq> [] \<or>
                            cell_text_of imap (cells r ! 1) \<noteq> [])
                  (filter (\<lambda>r. 2 \<le> length (cells r))
                     (drop (if has_header then 1 else 0) (rows tbl)))),
             imgs)"
    unfolding parse_found [OF p e] rows_loop_ok [OF t] by simp
next
  assume h: "py_index (tables d) table_index = Inr tbl \<and>
    extract_images_from_docx d b = Inr (imap, imgs) \<and>
    \<not> table_renders mem imap has_header tbl"
  then have p: "py_index (tables d) table_index = Inr tbl"
    and e: "extract_images_from_docx d b = Inr (imap, imgs)"
    and t: "\<not> list_all (\<lambda>r. length (cells r) < 2 \<or> cell_renders mem imap (cells r ! 1))
       (drop (if has_header then 1 else 0) (rows tbl))"
    by (simp_all add: table_renders_def)
  from rows_loop_fail [OF t, of "[]"]
  show "parse_docx_table_with_images mem path d b table_index has_header = Inl OverflowError \<or>
        parse_docx_table_with_images mem path d b table_index has_header = Inl MemoryError"
    unfolding parse_found [OF p e] by auto
next
  show "table_renders mem imap has_header tbl \<longleftrightarrow>
      (\<forall>r \<in> set (drop (if has_header then 1 else 0) (rows tbl)).
          2 \<le> length (cells r) \<longrightarrow> cell_renders mem imap (cells r ! 1))"
    unfolding table_renders_def list_all_iff by auto
next
  assume "cell_renders mem imap c'"
  then show "extract_cell_text_preserve_lists_and_images mem c' imap = Inr (cell_text_of imap c')"
    by (rule extract_cell_text_ok)
next
  show "extract_cell_title_with_images c imap =
     strip (join [32] (filter (\<lambda>s. s \<noteq> [])
       (map (\<lambda>p. extract_paragraph_with_images p imap) (paragraphs c))))"
    by (rule cell_title_eq)
next
  show "extract_cell_title_with_images (c\<lparr>paragraphs := map (\<lambda>p. p\<lparr>pPr := f p\<rparr>) (paragraphs c)\<rparr>) imap =
     extract_cell_title_with_images c imap"
    by (simp add: cell_title_eq comp_def extract_paragraph_pPr)
next
  have t: "strip (extract_cell_title_with_images c imap) = extract_cell_title_with_images c imap"
    unfolding extract_cell_title_with_images_def by (rule strip_idem)
  have dt: "strip (cell_text_of imap c') \<noteq> [] \<longleftrightarrow> cell_text_of imap c' \<noteq> []"
    using cell_text_nonspace [of imap c'] by (auto simp: strip_nonempty_iff)
  show "(extract_cell_title_with_images c imap \<noteq> [] \<or> cell_text_of imap c' \<noteq> []) \<longleftrightarrow>
    (strip (extract_cell_title_with_images c imap) \<noteq> [] \<or> strip (cell_text_of imap c') \<noteq> [])"
    unfolding t dt ..
qed

theorem table_rows_to_cards_witness:
  "py_index (tables example_table_doc) 0 = Inr example_table \<and>
   extract_images_from_docx example_table_doc (str ''doc'') =
     Inr (image_map (extract_run example_table_doc (str ''doc'')),
          [str ''doc_Image01.png'', str ''doc_Image03.bin'']) \<and>
   table_renders 1000 (image_map (extract_run example_table_doc (str ''doc''))) True example_table \<and>
   parse_docx_table_with_images 1000 (str ''in/doc.docx'') example_table_doc (str ''doc'') 0 True =
     Inr ([\<lparr>title = str ''Cats'',
             detail = [8226, 32] @ str ''item1'' @ [10] @ [8226, 32] @ str ''item2''\<rparr>,
           \<lparr>title = str ''Dogs'', detail = str ''[[image:doc_Image01.png]]''\<rparr>],
          [str ''doc_Image01.png'', str ''doc_Image03.bin''])"
proof -
  have h: "py_index (tables example_table_doc) 0 = Inr example_table"
    by code_simp
  have l: "loads example_table_doc"
    by code_simp
  have s: "sorted_list_of_set (all_final_names (extract_run example_table_doc (str ''doc''))) =
      [str ''doc_Image01.png'', str ''doc_Image03.bin'']"
    by code_simp
  have e: "extract_images_from_docx example_table_doc (str ''doc'') =
     Inr (image_map (extract_run example_table_doc (str ''doc'')),
          [str ''doc_Image01.png'', str ''doc_Image03.bin''])"
    unfolding extract_images_loads [OF l] s ..
  have t: "table_renders 1000 (image_map (extract_run example_table_doc (str ''doc''))) True
      example_table"
    by code_simp
  note p = table_rows_to_cards [of example_table_doc 0 example_table "str ''doc''"
      "image_map (extract_run example_table_doc (str ''doc''))"
      "[str ''doc_Image01.png'', str ''doc_Image03.bin'']" 1000 True "str ''in/doc.docx''",
      THEN conjunct1, THEN mp, OF conjI [OF h conjI [OF e t]]]
  have "parse_docx_table_with_images 1000 (str ''in/doc.docx'') example_table_doc (str ''doc'') 0 True =
     Inr ([\<lparr>title = str ''Cats'',
             detail = [8226, 32] @ str ''item1'' @ [10] @ [8226, 32] @ str ''item2''\<rparr>,
           \<lparr>title = str ''Dogs'', detail = str ''[[image:doc_Image01.png]]''\<rparr>],
          [str ''doc_Image01.png'', str ''doc_Image03.bin''])"
    unfolding p by code_simp
  with h e t show ?thesis by blast
qed

text \<open>
  Claim C7. Opening the document comes first: when it raises, that error is the result.
  For a document that opens, the function raises the error that names the path, the number
  of tables and the requested index if and only if the index is at least the number of
  tables; whenever it raises an error of that kind, the index is at least the number of
  tables. For an index from 0 up to the number of tables it returns, when the second cells
  of the rows of the table render. (Python reads a negative index from the end of the list
  of tables: down to minus the number of tables the function returns in the same way, below
  that the list access raises its own index error.)
\<close>

theorem table_index_error:
  "(parse_docx_table_with_images mem path d b table_index has_header =
      Inl (TableIndexError path (length (tables d)) table_index)
    \<longleftrightarrow> loads d \<and> int (length (tables d)) \<le> table_index) \<and>
   (\<forall>p n i. parse_docx_table_with_images mem path d b table_index has_header =
        Inl (TableIndexError p n i) \<longrightarrow>
      p = path \<and> n = length (tables d) \<and> i = table_index \<and> int (length (tables d)) \<le> table_index) \<and>
   (loads d \<and> 0 \<le> table_index \<and> table_index < int (length (tables d)) \<and>
    table_renders mem (image_map (extract_run d b)) has_header (tables d ! nat table_index) \<longrightarrow>
      (\<exists>r. parse_docx_table_with_images mem path d b table_index has_header = Inr r)) \<and>
   (loads d \<and> - int (length (tables d)) \<le> table_index \<and> table_index < 0 \<and>
    table_renders mem (image_map (extract_run d b)) has_header
      (tables d ! nat (int (length (tables d)) + table_index)) \<longrightarrow>
      (\<exists>r. parse_docx_table_with_images mem path d b table_index has_header = Inr r)) \<and>
   (loads d \<and> table_index < - int (length (tables d)) \<longrightarrow>
      parse_docx_table_with_images mem path d b table_index has_header = Inl ListIndexError) \<and>
   (\<not> loads d \<longrightarrow>
      (\<exists>m. parse_docx_table_with_images mem path d b table_index has_header = Inl (KeyError m)))"
proof (cases "loads d")
  case False
  from parse_not_loads [OF False, of mem path b table_index has_header]
  obtain m where "parse_docx_table_with_images mem path d b table_index has_header = Inl (KeyError m)"
    by blast
  with False show ?thesis by simp
next
  case True
  note pl = parse_loads [OF True, of mem path b table_index has_header]
  show ?thesis
  proof (cases "int (length (tables d)) \<le> table_index")
    case ge: True
    with pl have "parse_docx_table_with_images mem path d b table_index has_header =
        Inl (TableIndexError path (length (tables d)) table_index)"
      by simp
    with True ge show ?thesis by simp
  next
    case lt: False
    show ?thesis
    proof (cases "py_index (tables d) table_index")
      case (Inl e)
      then have e: "e = ListIndexError" and neg: "table_index < - int (length (tables d))"
        using lt by (auto simp: py_index_def split: if_splits)
      from pl lt Inl e
      have "parse_docx_table_with_images mem path d b table_index has_header = Inl ListIndexError"
        by simp
      with True lt neg show ?thesis by simp
    next
      case (Inr tbl)
      then have rng: "- int (length (tables d)) \<le> table_index"
        and tbl: "0 \<le> table_index \<longrightarrow> tbl = tables d ! nat table_index"
          "table_index < 0 \<longrightarrow> tbl = tables d ! nat (int (length (tables d)) + table_index)"
        by (auto simp: py_index_def split: if_splits)
      from pl lt Inr
      have eq: "parse_docx_table_with_images mem path d b table_index has_header =
          (case rows_loop mem (image_map (extract_run d b))
                  (drop (if has_header then 1 else 0) (rows tbl)) [] of
             Inl e \<Rightarrow> Inl e
           | Inr cards \<Rightarrow> Inr (cards, sorted_list_of_set (all_final_names (extract_run d b))))"
        by simp
      show ?thesis
      proof (cases "table_renders mem (image_map (extract_run d b)) has_header tbl")
        case r: True
        then have "\<exists>cs. rows_loop mem (image_map (extract_run d b))
            (drop (if has_header then 1 else 0) (rows tbl)) [] = Inr cs"
          unfolding table_renders_def by (simp add: rows_loop_ok)
        with eq have "\<exists>r. parse_docx_table_with_images mem path d b table_index has_header = Inr r"
          by auto
        with True lt rng show ?thesis by auto
      next
        case nr: False
        then have "rows_loop mem (image_map (extract_run d b))
              (drop (if has_header then 1 else 0) (rows tbl)) [] = Inl OverflowError \<or>
            rows_loop mem (image_map (extract_run d b))
              (drop (if has_header then 1 else 0) (rows tbl)) [] = Inl MemoryError"
          unfolding table_renders_def by (rule rows_loop_fail)
        with eq have "parse_docx_table_with_images mem path d b table_index has_header = Inl OverflowError \<or>
            parse_docx_table_with_images mem path d b table_index has_header = Inl MemoryError"
          by auto
        with True lt rng nr tbl show ?thesis by auto
      qed
    qed
  qed
qed

theorem table_index_error_witness:
  "loads example_table_doc \<and> int (length (tables example_table_doc)) \<le> 1 \<and>
   parse_docx_table_with_images 1000 (str ''in/doc.docx'') example_table_doc (str ''doc'') 1 True =
     Inl (TableIndexError (str ''in/doc.docx'') (length (tables example_table_doc)) 1) \<and>
   (0::int) \<le> 0 \<and> 0 < int (length (tables example_table_doc)) \<and>
   table_renders 1000 (image_map (extract_run example_table_doc (str ''doc''))) True
     (tables example_table_doc ! nat 0) \<and>
   (\<exists>r. parse_docx_table_with_images 1000 (str ''in/doc.docx'') example_table_doc (str ''doc'') 0 True
        = Inr r)"
proof -
  have l: "loads example_table_doc"
    by code_simp
  have h1: "int (length (tables example_table_doc)) \<le> 1"
    by (simp add: example_table_doc_def)
  have h2: "(0::int) \<le> 0 \<and> 0 < int (length (tables example_table_doc))"
    by (simp add: example_table_doc_def)
  have t: "table_renders 1000 (image_map (extract_run example_table_doc (str ''doc''))) True
     (tables example_table_doc ! nat 0)"
    by code_simp
  from table_index_error [of 1000 "str ''in/doc.docx''" example_table_doc "str ''doc''" 1 True] l h1
  have c1: "parse_docx_table_with_images 1000 (str ''in/doc.docx'') example_table_doc (str ''doc'') 1 True =
     Inl (TableIndexError (str ''in/doc.docx'') (length (tables example_table_doc)) 1)"
    by blast
  from table_index_error [of 1000 "str ''in/doc.docx''" example_table_doc "str ''doc''" 0 True] l h2 t
  have c2: "\<exists>r. parse_docx_table_with_images 1000 (str ''in/doc.docx'') example_table_doc (str ''doc'') 0 True
        = Inr r"
    by blast
  from l h1 h2 t c1 c2 show ?thesis by blast
qed

section \<open>Properties of the manifest\<close>

text \<open>
  Claim C8. After the loop of \<open>main\<close> over any jobs, starting from any index: a file name
  that no update of the batch touches has the entry it had, and that entry is in the saved
  list of files; a file name that an update touches has an entry whose fields \<open>type\<close>,
  \<open>source_docx\<close> and \<open>parsed_at\<close> are those of one of the updates and whose other fields
  are those of the entry it had before the batch (or of the new entry with only its path).
  One update stores the fetched or new entry with exactly these three fields assigned.
  \<open>save_manifest\<close> stamps the time and stores the entries of the index sorted by their
  path; when every entry is stored under its path, as in an index that \<open>load_manifest\<close>
  returns and in every index that the loop makes of such an index, the paths of the saved
  list are the sorted keys of the index.
\<close>

theorem manifest_accumulation:
  "(name \<notin> fst ` set (concat (map (job_ops mem cd ti nh) jobs)) \<longrightarrow>
      map_of (main_loop mem cd ti nh jobs idx) name = map_of idx name \<and>
      (\<forall>e. (name, e) \<in> set idx \<longrightarrow>
           (name, e) \<in> set (main_loop mem cd ti nh jobs idx) \<and>
           (\<exists>fs. files (save_manifest now data (main_loop mem cd ti nh jobs idx)) = Some fs \<and>
                 e \<in> set fs))) \<and>
   (name \<in> fst ` set (concat (map (job_ops mem cd ti nh) jobs)) \<longrightarrow>
      (\<exists>e' ty src t.
          (name, ty, src, t) \<in> set (concat (map (job_ops mem cd ti nh) jobs)) \<and>
          map_of (main_loop mem cd ti nh jobs idx) name = Some e' \<and>
          map_of e' (str ''type'') = Some ty \<and>
          map_of e' (str ''source_docx'') = Some src \<and>
          map_of e' (str ''parsed_at'') = Some t \<and>
          (\<forall>fld. fld \<noteq> str ''type'' \<and> fld \<noteq> str ''source_docx'' \<and> fld \<noteq> str ''parsed_at'' \<longrightarrow>
             map_of e' fld = map_of (dict_get idx name [(str ''path'', name)]) fld))) \<and>
   map_of (upsert name ty0 src0 t0 idx) =
     (map_of idx)(name \<mapsto>
        AList.update (str ''parsed_at'') t0
          (AList.update (str ''source_docx'') src0
            (AList.update (str ''type'') ty0 (dict_get idx name [(str ''path'', name)])))) \<and>
   files (save_manifest now data idx) = Some (sort_key entry_path (map snd idx)) \<and>
   generated_at (save_manifest now data idx) = Some now \<and>
   sorted (map entry_path (sort_key entry_path (map snd idx))) \<and>
   (index_wf idx \<longrightarrow>
      index_wf (main_loop mem cd ti nh jobs idx) \<and>
      map entry_path (sort_key entry_path (map snd idx)) = sort (map fst idx)) \<and>
   (\<forall>data0 idx0. load_manifest fs json_load manifest_path = Inr (data0, idx0) \<longrightarrow> index_wf idx0)"
proof (intro conjI impI allI)
  assume u: "name \<notin> fst ` set (concat (map (job_ops mem cd ti nh) jobs))"
  then show "map_of (main_loop mem cd ti nh jobs idx) name = map_of idx name"
    unfolding main_loop_ops by (rule fold_apply_op_untouched)
  fix e
  assume "(name, e) \<in> set idx"
  then show m: "(name, e) \<in> set (main_loop mem cd ti nh jobs idx)"
    unfolding main_loop_ops using u by (rule fold_apply_op_keeps)
  then have "e \<in> set (sort_key entry_path (map snd (main_loop mem cd ti nh jobs idx)))"
    by force
  then show "\<exists>fs. files (save_manifest now data (main_loop mem cd ti nh jobs idx)) = Some fs \<and> e \<in> set fs"
    by (simp add: save_manifest_def entry_path_def [abs_def])
next
  assume "name \<in> fst ` set (concat (map (job_ops mem cd ti nh) jobs))"
  then show "\<exists>e' ty src t.
          (name, ty, src, t) \<in> set (concat (map (job_ops mem cd ti nh) jobs)) \<and>
          map_of (main_loop mem cd ti nh jobs idx) name = Some e' \<and>
          map_of e' (str ''type'') = Some ty \<and>
          map_of e' (str ''source_docx'') = Some src \<and>
          map_of e' (str ''parsed_at'') = Some t \<and>
          (\<forall>fld. fld \<noteq> str ''type'' \<and> fld \<noteq> str ''source_docx'' \<and> fld \<noteq> str ''parsed_at'' \<longrightarrow>
             map_of e' fld = map_of (dict_get idx name [(str ''path'', name)]) fld)"
    unfolding main_loop_ops by (rule fold_apply_op_touched)
next
  show "map_of (upsert name ty0 src0 t0 idx) =
     (map_of idx)(name \<mapsto>
        AList.update (str ''parsed_at'') t0
          (AList.update (str ''source_docx'') src0
            (AList.update (str ''type'') ty0 (dict_get idx name [(str ''path'', name)]))))"
    by (rule map_of_upsert)
next
  show "files (save_manifest now data idx) = Some (sort_key entry_path (map snd idx))"
    by (simp add: save_manifest_def entry_path_def [abs_def])
next
  show "generated_at (save_manifest now data idx) = Some now"
    by (simp add: save_manifest_def)
next
  show "sorted (map entry_path (sort_key entry_path (map snd idx)))"
    by (rule sorted_sort_key)
next
  assume "index_wf idx"
  then show "index_wf (main_loop mem cd ti nh jobs idx)"
    unfolding main_loop_ops by (rule index_wf_fold_apply_op)
next
  assume "index_wf idx"
  then show "map entry_path (sort_key entry_path (map snd idx)) = sort (map fst idx)"
    by (simp only: map_sort_key index_wf_paths)
next
  fix data0 idx0
  assume "load_manifest fs json_load manifest_path = Inr (data0, idx0)"
  then show "index_wf idx0" by (rule index_wf_load)
qed

theorem manifest_accumulation_witness:
  "str ''old.json'' \<notin> fst ` set (concat (map (job_ops 1000 (str ''/in'') 0 False) [example_job])) \<and>
   map_of (main_loop 1000 (str ''/in'') 0 False [example_job] old_index) (str ''old.json'') =
     map_of old_index (str ''old.json'') \<and>
   str ''doc.json'' \<in> fst ` set (concat (map (job_ops 1000 (str ''/in'') 0 False) [example_job])) \<and>
   (\<exists>e'. map_of (main_loop 1000 (str ''/in'') 0 False [example_job] old_index) (str ''doc.json'') = Some e' \<and>
         map_of e' (str ''note'') = Some (str ''reviewed'')) \<and>
   index_wf old_index \<and>
   index_wf (main_loop 1000 (str ''/in'') 0 False [example_job] old_index) \<and>
   map entry_path (sort_key entry_path (map snd old_index)) = [str ''doc.json'', str ''old.json'']"
proof -
  have h1: "str ''old.json'' \<notin> fst ` set (concat (map (job_ops 1000 (str ''/in'') 0 False) [example_job]))"
    by code_simp
  have h2: "str ''doc.json'' \<in> fst ` set (concat (map (job_ops 1000 (str ''/in'') 0 False) [example_job]))"
    by code_simp
  have h3: "index_wf old_index"
    by code_simp
  have n: "str ''note'' \<noteq> str ''type'' \<and> str ''note'' \<noteq> str ''source_docx'' \<and>
      str ''note'' \<noteq> str ''parsed_at''"
    by (simp add: str_def)
  have v: "map_of (dict_get old_index (str ''doc.json'') [(str ''path'', str ''doc.json'')]) (str ''note'')
      = Some (str ''reviewed'')"
    by code_simp
  have s: "sort (map fst old_index) = [str ''doc.json'', str ''old.json'']"
    by code_simp
  note a = manifest_accumulation [of "str ''old.json''" 1000 "str ''/in''" 0 False "[example_job]" old_index]
  note b = manifest_accumulation [of "str ''doc.json''" 1000 "str ''/in''" 0 False "[example_job]" old_index]
  from a h1 have c1: "map_of (main_loop 1000 (str ''/in'') 0 False [example_job] old_index) (str ''old.json'') =
     map_of old_index (str ''old.json'')"
    by blast
  from b h2 obtain e' where e': "map_of (main_loop 1000 (str ''/in'') 0 False [example_job] old_index) (str ''doc.json'') = Some e'"
    and keep: "\<forall>fld. fld \<noteq> str ''type'' \<and> fld \<noteq> str ''source_docx'' \<and> fld \<noteq> str ''parsed_at'' \<longrightarrow>
             map_of e' fld = map_of (dict_get old_index (str ''doc.json'') [(str ''path'', str ''doc.json'')]) fld"
    by blast
  from keep n v have "map_of e' (str ''note'') = Some (str ''reviewed'')"
    by simp
  with e' have c2: "\<exists>e'. map_of (main_loop 1000 (str ''/in'') 0 False [example_job] old_index) (str ''doc.json'') = Some e' \<and>
         map_of e' (str ''note'') = Some (str ''reviewed'')"
    by blast
  from a h3 have c3: "index_wf (main_loop 1000 (str ''/in'') 0 False [example_job] old_index) \<and>
      map entry_path (sort_key entry_path (map snd old_index)) = sort (map fst old_index)"
    by blast
  from h1 c1 h2 c2 h3 c3 s show ?thesis by simp
qed

text \<open>
  Claim C9. When the manifest file does not exist, \<open>load_manifest\<close> returns the fresh
  manifest and an empty index, and \<open>main\<close> goes on. When the file exists and
  \<open>json.load\<close> raises, that error is the result of \<open>load_manifest\<close> and of \<open>main\<close>:
  the batch ends. When the file decodes, the decoded manifest is returned with its index.
\<close>

theorem load_manifest_absent_or_malformed:
  "(fs manifest_path = None \<longrightarrow>
      load_manifest fs json_load manifest_path =
        Inr (\<lparr>generated_at = None, files = Some []\<rparr>, [])) \<and>
   (\<forall>content e. fs manifest_path = Some content \<and> json_load content = Inl e \<longrightarrow>
      load_manifest fs json_load manifest_path = Inl e) \<and>
   (\<forall>content data. fs manifest_path = Some content \<and> json_load content = Inr data \<longrightarrow>
      (\<exists>idx. load_manifest fs json_load manifest_path = Inr (data, idx))) \<and>
   (fs (path_join output_dir (str ''manifest.json'')) = None \<longrightarrow>
      (\<exists>r. main mem fs json_load current_dir output_dir table_index no_header jobs now = Inr r)) \<and>
   (\<forall>content e. fs (path_join output_dir (str ''manifest.json'')) = Some content \<and>
      json_load content = Inl e \<longrightarrow>
      main mem fs json_load current_dir output_dir table_index no_header jobs now = Inl e)"
  by (simp add: load_manifest_def main_def Let_def)

theorem load_manifest_absent_or_malformed_witness:
  "Map.empty (str ''out/manifest.json'') = (None :: bytes option) \<and>
   load_manifest Map.empty (\<lambda>c. Inl JSONDecodeError) (str ''out/manifest.json'') =
     Inr (\<lparr>generated_at = None, files = Some []\<rparr>, []) \<and>
   [str ''out/manifest.json'' \<mapsto> ''{not json''] (str ''out/manifest.json'') = Some ''{not json'' \<and>
   (\<lambda>c :: bytes. (Inl JSONDecodeError :: error + manifest_data)) ''{not json'' = Inl JSONDecodeError \<and>
   load_manifest [str ''out/manifest.json'' \<mapsto> ''{not json''] (\<lambda>c. Inl JSONDecodeError)
     (str ''out/manifest.json'') = Inl JSONDecodeError \<and>
   path_join (str ''out'') (str ''manifest.json'') = str ''out/manifest.json'' \<and>
   main 1000 [str ''out/manifest.json'' \<mapsto> ''{not json''] (\<lambda>c. Inl JSONDecodeError)
     (str ''in'') (str ''out'') 0 False [example_job] (str ''2024-05-01T10:00:05+00:00'') =
     Inl JSONDecodeError"
proof -
  have h1: "Map.empty (str ''out/manifest.json'') = (None :: bytes option)"
    by simp
  have h2: "[str ''out/manifest.json'' \<mapsto> ''{not json''] (str ''out/manifest.json'') = Some ''{not json'' \<and>
      (\<lambda>c :: bytes. (Inl JSONDecodeError :: error + manifest_data)) ''{not json'' = Inl JSONDecodeError"
    by simp
  have pj: "path_join (str ''out'') (str ''manifest.json'') = str ''out/manifest.json''"
    by code_simp
  from load_manifest_absent_or_malformed [of Map.empty "str ''out/manifest.json''"
      "\<lambda>c. Inl JSONDecodeError"] h1
  have c1: "load_manifest Map.empty (\<lambda>c. Inl JSONDecodeError) (str ''out/manifest.json'') =
     Inr (\<lparr>generated_at = None, files = Some []\<rparr>, [])"
    by blast
  note b = load_manifest_absent_or_malformed [of "[str ''out/manifest.json'' \<mapsto> ''{not json'']"
      "str ''out/manifest.json''" "\<lambda>c. Inl JSONDecodeError" "str ''out''" 1000 "str ''in''" 0 False
      "[example_job]" "str ''2024-05-01T10:00:05+00:00''"]
  from b h2
  have c2: "load_manifest [str ''out/manifest.json'' \<mapsto> ''{not json''] (\<lambda>c. Inl JSONDecodeError)
     (str ''out/manifest.json'') = Inl JSONDecodeError"
    by blast
  from b h2 have c3: "main 1000 [str ''out/manifest.json'' \<mapsto> ''{not json''] (\<lambda>c. Inl JSONDecodeError)
     (str ''in'') (str ''out'') 0 False [example_job] (str ''2024-05-01T10:00:05+00:00'') =
     Inl JSONDecodeError"
    unfolding pj by blast
  from h1 h2 pj c1 c2 c3 show ?thesis by blast
qed

end
